theory Spec2Isabelle
  imports Main "HOL-Library.Word"
begin

unbundle bit_operations_syntax

section \<open>Machine types and the bit layout\<close>

text \<open>
  The generator of \<^verbatim>\<open>flake.go\<close> works on Go's fixed-width integers: \<^verbatim>\<open>byte\<close>,
  \<^verbatim>\<open>int32\<close>, \<^verbatim>\<open>int64\<close> and \<^verbatim>\<open>uint64\<close>. They are words here; \<open>+\<close> and \<open>-\<close> wrap,
  \<open>push_bit\<close> is \<^verbatim>\<open><<\<close> (bits shifted out are lost), \<open>signed_drop_bit\<close> is \<^verbatim>\<open>>>\<close> on a
  signed operand, a signed comparison reads both sides with \<open>sint\<close>, a widening
  conversion of a signed value is \<open>scast\<close> and of an unsigned one \<open>ucast\<close>.
\<close>

type_synonym byte = "8 word"
type_synonym int32 = "32 word"
type_synonym uint32 = "32 word"
type_synonym int64 = "64 word"
type_synonym uint64 = "64 word"

text \<open>\<^verbatim>\<open>type Flake int64\<close>\<close>

type_synonym Flake = int64

text \<open>\<^verbatim>\<open>[interval(4byte)][sequence/random(3byte)][machine(1byte)]\<close>\<close>

definition intervalBits :: nat where
  "intervalBits = 32"

definition sequenceBits :: nat where
  "sequenceBits = 23"

definition machineIdBits :: nat where
  "machineIdBits = 8"

definition ignoredTimeBits :: nat where
  "ignoredTimeBits = 30"

definition intervalMask :: int64 where
  "intervalMask = push_bit intervalBits 1 - 1"

definition machineIdMask :: uint32 where
  "machineIdMask = push_bit machineIdBits 1 - 1"

section \<open>The generator\<close>

text \<open>
  \<^verbatim>\<open>type flaker struct\<close>. The field \<open>mutex\<close> is a pointer in the source; here it is the
  identity of the mutex it points to.
\<close>

record flaker =
  mutex :: nat
  raw :: bool
  machineId :: byte
  epochStart :: int64
  sequence :: int32
  currentInterval :: int64

text \<open>
  The two singletons \<^verbatim>\<open>Default\<close> and \<^verbatim>\<open>Raw\<close>. The result of \<^verbatim>\<open>getLocalIPv4()\<close>, which
  reads the network interfaces, is a parameter. Each singleton owns a mutex of its own.
\<close>

definition Default :: "uint32 \<Rightarrow> flaker" where
  "Default ip4 = \<lparr>mutex = 0, raw = False, machineId = ucast (ip4 AND machineIdMask),
     epochStart = 1577833200000000000, sequence = 0, currentInterval = 0\<rparr>"

definition Raw :: "uint32 \<Rightarrow> flaker" where
  "Raw ip4 = \<lparr>mutex = 1, raw = True, machineId = ucast (ip4 AND machineIdMask),
     epochStart = 1577833200000000000, sequence = 0, currentInterval = 0\<rparr>"

text \<open>
  \<^verbatim>\<open>randomByte\<close> converts the one byte that \<^verbatim>\<open>rand.Read\<close> delivered to \<^verbatim>\<open>int32\<close>. The byte
  delivered is an input of the model.
\<close>

definition randomByte :: "byte \<Rightarrow> int32" where
  "randomByte b = ucast b"

text \<open>
  The interval of \<^verbatim>\<open>next\<close>:
  \<^verbatim>\<open>((time.Now().UnixNano() - g.epochStart) >> ignoredTimeBits) & intervalMask\<close>,
  with the clock reading \<open>now\<close> an input.
\<close>

definition interval_of :: "int64 \<Rightarrow> int64 \<Rightarrow> int64" where
  "interval_of now epoch = signed_drop_bit ignoredTimeBits (now - epoch) AND intervalMask"

text \<open>
  The guard of the critical section of \<^verbatim>\<open>next\<close>:
  \<^verbatim>\<open>loop := (g.sequence + 0x400000 - 0x2020) >> sequenceBits\<close> and
  \<^verbatim>\<open>interval-int64(loop) <= g.currentInterval\<close>, all in signed arithmetic.
\<close>

definition same_interval :: "flaker \<Rightarrow> int64 \<Rightarrow> bool" where
  "same_interval g interval =
     (let loop = signed_drop_bit sequenceBits (sequence g + 0x400000 - 0x2020) in
      sint (interval - scast loop) \<le> sint (currentInterval g))"

text \<open>
  The part of \<^verbatim>\<open>next\<close> between \<^verbatim>\<open>g.mutex.Lock()\<close> and \<^verbatim>\<open>g.mutex.Unlock()\<close>: it yields the
  local variable \<^verbatim>\<open>sequence\<close> and the updated generator. \<open>r1\<close> and \<open>r2\<close> are the
  bytes the random source delivers to the first and to the second call of
  \<^verbatim>\<open>randomByte\<close>; a branch that calls it once takes \<open>r1\<close>, one that never calls it takes none.
\<close>

definition next_locked :: "flaker \<Rightarrow> int64 \<Rightarrow> byte \<Rightarrow> byte \<Rightarrow> int32 \<times> flaker" where
  "next_locked g interval r1 r2 =
     (if same_interval g interval then
        let g1 = g\<lparr>sequence := sequence g + 1\<rparr> in
        if sint (sequence g1) < 0x20 then
          (push_bit 16 (sequence g1) OR push_bit 8 (randomByte r1) OR randomByte r2, g1)
        else if sint (sequence g1) < 0x2020 then
          ((0x200000 - 0x2000 + push_bit 8 (sequence g1)) OR randomByte r1, g1)
        else
          (0x400000 - 0x2020 + sequence g1, g1)
      else
        (0, g\<lparr>currentInterval := interval, sequence := 0\<rparr>))"

text \<open>
  The last three statements of \<^verbatim>\<open>next\<close>, which put the interval, the sequence field and
  the machine id together.
\<close>

definition assemble :: "int64 \<Rightarrow> int32 \<Rightarrow> byte \<Rightarrow> int64" where
  "assemble interval sq m =
     (let raw0 = interval;
          raw1 = push_bit sequenceBits raw0 + scast sq;
          raw2 = push_bit machineIdBits raw1 OR ucast m
      in raw2)"

text \<open>\<^verbatim>\<open>func (g *flaker) next() int64\<close>: the raw identifier and the generator after the call.\<close>

definition flaker_next :: "flaker \<Rightarrow> int64 \<Rightarrow> byte \<Rightarrow> byte \<Rightarrow> int64 \<times> flaker" where
  "flaker_next g now r1 r2 =
     (let interval = interval_of now (epochStart g);
          (sq, g') = next_locked g interval r1 r2
      in (assemble interval sq (machineId g), g'))"

section \<open>The bit shuffle\<close>

text \<open>
  \<^verbatim>\<open>binary.LittleEndian.Uint64\<close> of the standard library: the first eight bytes of the
  slice, the first one least significant. It panics on a shorter slice (\<open>None\<close>).
\<close>

fun le_Uint64 :: "byte list \<Rightarrow> uint64 option" where
  "le_Uint64 (b0 # b1 # b2 # b3 # b4 # b5 # b6 # b7 # bs) =
     Some (ucast b0 OR push_bit 8 (ucast b1) OR push_bit 16 (ucast b2) OR push_bit 24 (ucast b3)
       OR push_bit 32 (ucast b4) OR push_bit 40 (ucast b5) OR push_bit 48 (ucast b6)
       OR push_bit 56 (ucast b7))"
| "le_Uint64 bs = None"

text \<open>
  The body of the two loops of \<^verbatim>\<open>Next\<close>:
  \<^verbatim>\<open>uid[l] |= byte((raw & (1 << (i*8 + l))) >> (i*7 + l))\<close>. \<open>raw\<close> is an \<^verbatim>\<open>int64\<close>, so the
  shift to the right is arithmetic, and \<^verbatim>\<open>byte\<close> keeps the low eight bits. The slice has
  eight bytes and \<open>l\<close> stays below 8, so every index is in range.
\<close>

definition shuffle_step :: "int64 \<Rightarrow> nat \<Rightarrow> nat \<Rightarrow> byte list \<Rightarrow> byte list" where
  "shuffle_step raw0 i l uid =
     uid[l := uid ! l OR ucast (signed_drop_bit (i * 7 + l) (raw0 AND push_bit (i * 8 + l) 1))]"

definition shuffle_bytes :: "int64 \<Rightarrow> byte list" where
  "shuffle_bytes raw0 =
     fold (\<lambda>i uid. fold (\<lambda>l uid. shuffle_step raw0 i l uid) [0..<8] uid) [0..<8]
       (replicate 8 0)"

text \<open>The shuffle of \<^verbatim>\<open>Next\<close>: the loops, then \<^verbatim>\<open>Flake(binary.LittleEndian.Uint64(uid))\<close>.\<close>

definition shuffle :: "int64 \<Rightarrow> Flake option" where
  "shuffle raw0 = le_Uint64 (shuffle_bytes raw0)"

text \<open>
  \<^verbatim>\<open>func (g *flaker) Next() Flake\<close>: the identifier (\<open>None\<close> if the call panicked) and the
  generator after the call.
\<close>

definition flaker_Next :: "flaker \<Rightarrow> int64 \<Rightarrow> byte \<Rightarrow> byte \<Rightarrow> Flake option \<times> flaker" where
  "flaker_Next g now r1 r2 =
     (let (raw0, g') = flaker_next g now r1 r2
      in if raw g then (Some raw0, g') else (shuffle raw0, g'))"

text \<open>
  Calls of \<^verbatim>\<open>Next\<close> on one generator, one after the other: each call has its clock
  reading and the two bytes the random source would deliver to it. The result is the
  list of the identifiers in call order and the generator after the last call.
\<close>

fun run :: "flaker \<Rightarrow> (int64 \<times> byte \<times> byte) list \<Rightarrow> Flake option list \<times> flaker" where
  "run g [] = ([], g)"
| "run g ((now, r1, r2) # cs) =
     (let (f, g1) = flaker_Next g now r1 r2;
          (fs, g2) = run g1 cs
      in (f # fs, g2))"

text \<open>
  A burst of \<open>n\<close> calls, 200 nanoseconds apart, the first at the clock reading \<open>t\<close>; the
  random source delivers the bytes 1 and 2 to each.
\<close>

definition burst :: "int64 \<Rightarrow> nat \<Rightarrow> (int64 \<times> byte \<times> byte) list" where
  "burst t n = map (\<lambda>k. (t + 200 * of_nat k, 1, 2)) [0..<n]"

section \<open>Configured copies\<close>

text \<open>
  \<^verbatim>\<open>WithMachineId\<close> and \<^verbatim>\<open>WithEpochStart\<close> hand out pointers to new generators and to new
  mutexes, so they run on a store: the generators allocated so far, a pointer being an
  index into the list, and the number of mutexes allocated so far, the next mutex
  getting that number.
\<close>

record store =
  flakers :: "flaker list"
  mutexes :: nat

text \<open>\<^verbatim>\<open>&sync.Mutex{}\<close>\<close>

definition new_mutex :: "store \<Rightarrow> nat \<times> store" where
  "new_mutex st = (mutexes st, st\<lparr>mutexes := Suc (mutexes st)\<rparr>)"

text \<open>
  \<^verbatim>\<open>func (g flaker) WithMachineId(machineId byte) Flaker\<close>, called through the pointer \<open>p\<close>
  that the interface value holds. The receiver is a value: the call copies the generator
  that \<open>p\<close> points to, changes the copy and returns the address of the copy. A pointer
  to no generator makes the call panic (\<open>None\<close>).
\<close>

definition WithMachineId :: "store \<Rightarrow> nat \<Rightarrow> byte \<Rightarrow> (nat \<times> store) option" where
  "WithMachineId st p m =
     (if p < length (flakers st) then
        let g = flakers st ! p;
            g1 = g\<lparr>machineId := m\<rparr>;
            (mu, st1) = new_mutex st;
            g2 = g1\<lparr>mutex := mu\<rparr>
        in Some (length (flakers st1), st1\<lparr>flakers := flakers st1 @ [g2]\<rparr>)
      else None)"

text \<open>
  \<^verbatim>\<open>func (g flaker) WithEpochStart(time time.Time) Flaker\<close>; \<open>t\<close> is \<^verbatim>\<open>time.UnixNano()\<close>
  of the argument.
\<close>

definition WithEpochStart :: "store \<Rightarrow> nat \<Rightarrow> int64 \<Rightarrow> (nat \<times> store) option" where
  "WithEpochStart st p t =
     (if p < length (flakers st) then
        let g = flakers st ! p;
            g1 = g\<lparr>epochStart := t\<rparr>;
            (mu, st1) = new_mutex st;
            g2 = g1\<lparr>mutex := mu\<rparr>
        in Some (length (flakers st1), st1\<lparr>flakers := flakers st1 @ [g2]\<rparr>)
      else None)"

text \<open>Every mutex a generator of the store points to has been allocated.\<close>

definition wf_store :: "store \<Rightarrow> bool" where
  "wf_store st = list_all (\<lambda>g. mutex g < mutexes st) (flakers st)"

section \<open>Binary and text forms\<close>

text \<open>
  The errors of the decoding functions: \<^verbatim>\<open>errors.New("unknown format")\<close> of \<^verbatim>\<open>flake.go\<close>, and
  the errors of the standard library's decoders, without the offending byte or offset
  that they carry. \<open>Panicked\<close> stands for a run-time panic, which is no error value in Go.
\<close>

datatype error =
  UnknownFormat
| HexInvalidByte
| HexErrLength
| Base32CorruptInput
| Base64CorruptInput
| Panicked

text \<open>
  \<^verbatim>\<open>binary.BigEndian.PutUint64\<close> into a slice of eight bytes, and \<^verbatim>\<open>binary.BigEndian.Uint64\<close>,
  which reads the first eight bytes of a slice and panics on a shorter one (\<open>None\<close>).
\<close>

definition be_PutUint64 :: "uint64 \<Rightarrow> byte list" where
  "be_PutUint64 v =
     [ucast (drop_bit 56 v), ucast (drop_bit 48 v), ucast (drop_bit 40 v), ucast (drop_bit 32 v),
      ucast (drop_bit 24 v), ucast (drop_bit 16 v), ucast (drop_bit 8 v), ucast v]"

fun be_Uint64 :: "byte list \<Rightarrow> uint64 option" where
  "be_Uint64 (b0 # b1 # b2 # b3 # b4 # b5 # b6 # b7 # bs) =
     Some (ucast b7 OR push_bit 8 (ucast b6) OR push_bit 16 (ucast b5) OR push_bit 24 (ucast b4)
       OR push_bit 32 (ucast b3) OR push_bit 40 (ucast b2) OR push_bit 48 (ucast b1)
       OR push_bit 56 (ucast b0))"
| "be_Uint64 bs = None"

text \<open>\<^verbatim>\<open>func (f Flake) Bytes() []byte\<close>; the conversion \<^verbatim>\<open>uint64(f)\<close> keeps the bits.\<close>

definition Bytes :: "Flake \<Rightarrow> byte list" where
  "Bytes f = be_PutUint64 f"

text \<open>\<^verbatim>\<open>func FromBytes(b []byte) (flake Flake, err error)\<close>\<close>

definition FromBytes :: "byte list \<Rightarrow> error + Flake" where
  "FromBytes b =
     (if length b \<noteq> 8 then Inl UnknownFormat
      else case be_Uint64 b of Some v \<Rightarrow> Inr v | None \<Rightarrow> Inl Panicked)"

subsection \<open>The encodings of the standard library\<close>

text \<open>
  \<^verbatim>\<open>flake.go\<close> calls \<^verbatim>\<open>encoding/hex\<close>, \<^verbatim>\<open>encoding/base32\<close> and \<^verbatim>\<open>encoding/base64\<close> of the Go
  standard library. Their functions are modelled here after the library (RFC 4648). A
  Go string is a sequence of bytes and so is a \<open>string\<close> here; \<^verbatim>\<open>len\<close> is \<open>length\<close>.
\<close>

text \<open>The position of the first occurrence of a symbol in an alphabet.\<close>

fun index_of :: "'a \<Rightarrow> 'a list \<Rightarrow> nat option" where
  "index_of x [] = None"
| "index_of x (y # ys) = (if x = y then Some 0 else map_option Suc (index_of x ys))"

text \<open>
  The two tables of an \<^verbatim>\<open>Encoding\<close> with the alphabet \<open>al\<close>: \<^verbatim>\<open>encode[v]\<close>, and
  \<^verbatim>\<open>decodeMap[c]\<close>, whose entry \<^verbatim>\<open>0xFF\<close> for a byte outside the alphabet is \<open>None\<close>.
\<close>

definition encode_sym :: "string \<Rightarrow> 'a::len word \<Rightarrow> char" where
  "encode_sym al v = al ! unat v"

definition decodeMap :: "string \<Rightarrow> char \<Rightarrow> byte option" where
  "decodeMap al c = map_option of_nat (index_of c al)"

text \<open>\<^verbatim>\<open>stripNewlines\<close>: both decoders ignore the characters \<^verbatim>\<open>\r\<close> and \<^verbatim>\<open>\n\<close>.\<close>

definition stripNewlines :: "string \<Rightarrow> string" where
  "stripNewlines s = filter (\<lambda>c. c \<noteq> CHR 0x0D \<and> c \<noteq> CHR 0x0A) s"

text \<open>\<^verbatim>\<open>encoding/hex\<close>: \<^verbatim>\<open>hextable\<close>, \<^verbatim>\<open>EncodeToString\<close>, \<^verbatim>\<open>fromHexChar\<close> and \<^verbatim>\<open>DecodeString\<close>.\<close>

definition hextable :: string where
  "hextable = ''0123456789abcdef''"

fun hex_EncodeToString :: "byte list \<Rightarrow> string" where
  "hex_EncodeToString [] = []"
| "hex_EncodeToString (v # src) =
     encode_sym hextable (drop_bit 4 v) # encode_sym hextable (v AND 0x0f) # hex_EncodeToString src"

definition fromHexChar :: "char \<Rightarrow> byte option" where
  "fromHexChar ch =
     (let c = of_char ch :: byte in
      if of_char CHR ''0'' \<le> c \<and> c \<le> of_char CHR ''9'' then Some (c - of_char CHR ''0'')
      else if of_char CHR ''a'' \<le> c \<and> c \<le> of_char CHR ''f'' then Some (c - of_char CHR ''a'' + 10)
      else if of_char CHR ''A'' \<le> c \<and> c \<le> of_char CHR ''F'' then Some (c - of_char CHR ''A'' + 10)
      else None)"

fun hex_DecodeString :: "string \<Rightarrow> error + byte list" where
  "hex_DecodeString [] = Inr []"
| "hex_DecodeString [p] = (if fromHexChar p = None then Inl HexInvalidByte else Inl HexErrLength)"
| "hex_DecodeString (p # q # src) =
     (case fromHexChar p of
        None \<Rightarrow> Inl HexInvalidByte
      | Some a \<Rightarrow>
          (case fromHexChar q of
             None \<Rightarrow> Inl HexInvalidByte
           | Some b \<Rightarrow>
               (case hex_DecodeString src of
                  Inl e \<Rightarrow> Inl e
                | Inr bs \<Rightarrow> Inr ((push_bit 4 a OR b) # bs))))"

text \<open>
  \<^verbatim>\<open>encoding/base64\<close>, \<^verbatim>\<open>RawURLEncoding\<close>: the URL-safe alphabet, no padding, not strict.
  \<^verbatim>\<open>Encode\<close> turns three bytes into four symbols and a rest of two or one bytes into three
  or two symbols.
\<close>

definition encodeURL :: string where
  "encodeURL = ''ABCDEFGHIJKLMNOPQRSTUVWXYZabcdefghijklmnopqrstuvwxyz0123456789-_''"

fun b64_EncodeToString :: "byte list \<Rightarrow> string" where
  "b64_EncodeToString [] = []"
| "b64_EncodeToString [a] =
     (let v = push_bit 16 (ucast a) :: uint64 in
      [encode_sym encodeURL (drop_bit 18 v AND 0x3F), encode_sym encodeURL (drop_bit 12 v AND 0x3F)])"
| "b64_EncodeToString [a, b] =
     (let v = push_bit 16 (ucast a) OR push_bit 8 (ucast b) :: uint64 in
      [encode_sym encodeURL (drop_bit 18 v AND 0x3F), encode_sym encodeURL (drop_bit 12 v AND 0x3F),
       encode_sym encodeURL (drop_bit 6 v AND 0x3F)])"
| "b64_EncodeToString (a # b # c # src) =
     (let v = push_bit 16 (ucast a) OR push_bit 8 (ucast b) OR ucast c :: uint64 in
      encode_sym encodeURL (drop_bit 18 v AND 0x3F) # encode_sym encodeURL (drop_bit 12 v AND 0x3F)
      # encode_sym encodeURL (drop_bit 6 v AND 0x3F) # encode_sym encodeURL (v AND 0x3F)
      # b64_EncodeToString src)"

text \<open>
  The end of \<^verbatim>\<open>decodeQuantum\<close>: the four 6-bit values, zero where the input ended early,
  are put together and the bytes cut out; \<open>dlen\<close> values give \<open>dlen - 1\<close> bytes.
\<close>

definition b64_val :: "byte \<Rightarrow> byte \<Rightarrow> byte \<Rightarrow> byte \<Rightarrow> uint64" where
  "b64_val d0 d1 d2 d3 =
     push_bit 18 (ucast d0) OR push_bit 12 (ucast d1) OR push_bit 6 (ucast d2) OR ucast d3"

text \<open>
  \<^verbatim>\<open>Decode\<close> on input without \<^verbatim>\<open>\r\<close> and \<^verbatim>\<open>\n\<close>: quantum after quantum. A byte outside the
  alphabet and a last quantum of one symbol are corrupt input; a last quantum of two or
  three symbols gives one or two bytes, the bits left over being ignored.
\<close>

fun b64_decode :: "string \<Rightarrow> error + byte list" where
  "b64_decode [] = Inr []"
| "b64_decode [c0] = Inl Base64CorruptInput"
| "b64_decode [c0, c1] =
     (case (decodeMap encodeURL c0, decodeMap encodeURL c1) of
        (Some d0, Some d1) \<Rightarrow> Inr [ucast (drop_bit 16 (b64_val d0 d1 0 0))]
      | _ \<Rightarrow> Inl Base64CorruptInput)"
| "b64_decode [c0, c1, c2] =
     (case (decodeMap encodeURL c0, decodeMap encodeURL c1, decodeMap encodeURL c2) of
        (Some d0, Some d1, Some d2) \<Rightarrow>
          Inr [ucast (drop_bit 16 (b64_val d0 d1 d2 0)), ucast (drop_bit 8 (b64_val d0 d1 d2 0))]
      | _ \<Rightarrow> Inl Base64CorruptInput)"
| "b64_decode (c0 # c1 # c2 # c3 # src) =
     (case (decodeMap encodeURL c0, decodeMap encodeURL c1, decodeMap encodeURL c2,
            decodeMap encodeURL c3) of
        (Some d0, Some d1, Some d2, Some d3) \<Rightarrow>
          (case b64_decode src of
             Inl e \<Rightarrow> Inl e
           | Inr bs \<Rightarrow>
               Inr (ucast (drop_bit 16 (b64_val d0 d1 d2 d3)) # ucast (drop_bit 8 (b64_val d0 d1 d2 d3))
                    # ucast (b64_val d0 d1 d2 d3) # bs))
      | _ \<Rightarrow> Inl Base64CorruptInput)"

text \<open>
  \<^verbatim>\<open>DecodeString\<close>. The library skips \<^verbatim>\<open>\r\<close> and \<^verbatim>\<open>\n\<close> where it meets them; here they are
  removed first, which leaves the same symbols in the same order.
\<close>

definition b64_DecodeString :: "string \<Rightarrow> error + byte list" where
  "b64_DecodeString s = b64_decode (stripNewlines s)"

text \<open>
  \<^verbatim>\<open>encoding/base32\<close>, \<^verbatim>\<open>HexEncoding.WithPadding(NoPadding)\<close>: the extended hex alphabet, no
  padding. \<^verbatim>\<open>Encode\<close> unpacks five bytes, zero where the input has ended, into eight 5-bit
  blocks and writes as many symbols as the input has bits for.
\<close>

definition encodeHex :: string where
  "encodeHex = ''0123456789ABCDEFGHIJKLMNOPQRSTUV''"

definition b32_blocks :: "byte \<Rightarrow> byte \<Rightarrow> byte \<Rightarrow> byte \<Rightarrow> byte \<Rightarrow> byte list" where
  "b32_blocks s0 s1 s2 s3 s4 =
     [drop_bit 3 s0,
      (push_bit 2 s0 AND 0x1F) OR (drop_bit 6 s1 AND 0x1F),
      drop_bit 1 s1 AND 0x1F,
      (push_bit 4 s1 AND 0x1F) OR (drop_bit 4 s2 AND 0x1F),
      (push_bit 1 s2 AND 0x1F) OR drop_bit 7 s3,
      drop_bit 2 s3 AND 0x1F,
      (push_bit 3 s3 AND 0x1F) OR drop_bit 5 s4,
      s4 AND 0x1F]"

fun b32_EncodeToString :: "byte list \<Rightarrow> string" where
  "b32_EncodeToString [] = []"
| "b32_EncodeToString [s0] =
     map (\<lambda>b. encode_sym encodeHex (b AND 31)) (take 2 (b32_blocks s0 0 0 0 0))"
| "b32_EncodeToString [s0, s1] =
     map (\<lambda>b. encode_sym encodeHex (b AND 31)) (take 4 (b32_blocks s0 s1 0 0 0))"
| "b32_EncodeToString [s0, s1, s2] =
     map (\<lambda>b. encode_sym encodeHex (b AND 31)) (take 5 (b32_blocks s0 s1 s2 0 0))"
| "b32_EncodeToString [s0, s1, s2, s3] =
     map (\<lambda>b. encode_sym encodeHex (b AND 31)) (take 7 (b32_blocks s0 s1 s2 s3 0))"
| "b32_EncodeToString (s0 # s1 # s2 # s3 # s4 # src) =
     map (\<lambda>b. encode_sym encodeHex (b AND 31)) (b32_blocks s0 s1 s2 s3 s4) @ b32_EncodeToString src"

text \<open>
  The packing at the end of the loop of \<^verbatim>\<open>decode\<close>: the switch on the number \<open>dlen\<close> of 5-bit
  values of the quantum falls through from 8 to 7, 5, 4 and 2, so that 8, 7, 5, 4 and 2
  values give 5, 4, 3, 2 and 1 bytes and any other number gives none.
\<close>

definition b32_pack :: "byte list \<Rightarrow> byte list" where
  "b32_pack dbuf =
     (let d = dbuf @ replicate (8 - length dbuf) 0;
          dlen = length dbuf;
          o0 = push_bit 3 (d ! 0) OR drop_bit 2 (d ! 1);
          o1 = push_bit 6 (d ! 1) OR push_bit 1 (d ! 2) OR drop_bit 4 (d ! 3);
          o2 = push_bit 4 (d ! 3) OR drop_bit 1 (d ! 4);
          o3 = push_bit 7 (d ! 4) OR push_bit 2 (d ! 5) OR drop_bit 3 (d ! 6);
          o4 = push_bit 5 (d ! 6) OR d ! 7
      in if dlen = 8 then [o0, o1, o2, o3, o4]
         else if dlen = 7 then [o0, o1, o2, o3]
         else if dlen = 5 then [o0, o1, o2]
         else if dlen = 4 then [o0, o1]
         else if dlen = 2 then [o0]
         else [])"

text \<open>
  \<^verbatim>\<open>decode\<close> on input without \<^verbatim>\<open>\r\<close> and \<^verbatim>\<open>\n\<close>; \<open>dbuf\<close> holds the values of the quantum
  read so far. The library compares each input byte with \<^verbatim>\<open>byte(enc.padChar)\<close>, which is
  \<^verbatim>\<open>0xFF\<close> for \<^verbatim>\<open>NoPadding\<close>: such a byte from the third symbol of a quantum on, with fewer
  than eight bytes after it, is taken for padding and ends the decoding, with an error
  unless enough such bytes follow and the quantum has a length that padding allows.
  Every other byte outside the alphabet is corrupt input.
\<close>

fun b32_decode :: "byte list \<Rightarrow> string \<Rightarrow> error + byte list" where
  "b32_decode dbuf [] = Inr (b32_pack dbuf)"
| "b32_decode dbuf (c # src) =
     (if c = CHR 0xFF \<and> 2 \<le> length dbuf \<and> length src < 8 then
        (if length src + length dbuf < 8 - 1 then Inl Base32CorruptInput
         else if list_ex (\<lambda>k. k < length src \<and> src ! k \<noteq> CHR 0xFF) [0..<8 - 1 - length dbuf]
           then Inl Base32CorruptInput
         else if length dbuf = 3 \<or> length dbuf = 6 then Inl Base32CorruptInput
         else Inr (b32_pack dbuf))
      else
        (case decodeMap encodeHex c of
           None \<Rightarrow> Inl Base32CorruptInput
         | Some v \<Rightarrow>
             if length dbuf = 7 then
               (case b32_decode [] src of
                  Inl e \<Rightarrow> Inl e
                | Inr bs \<Rightarrow> Inr (b32_pack (dbuf @ [v]) @ bs))
             else b32_decode (dbuf @ [v]) src))"

definition b32_DecodeString :: "string \<Rightarrow> error + byte list" where
  "b32_DecodeString s = b32_decode [] (stripNewlines s)"

subsection \<open>The text forms of an identifier\<close>

text \<open>\<^verbatim>\<open>func (f Flake) Hex() string\<close>, \<^verbatim>\<open>Base64\<close> and \<^verbatim>\<open>Base32\<close>.\<close>

definition Hex :: "Flake \<Rightarrow> string" where
  "Hex f = hex_EncodeToString (Bytes f)"

definition Base64 :: "Flake \<Rightarrow> string" where
  "Base64 f = b64_EncodeToString (Bytes f)"

definition Base32 :: "Flake \<Rightarrow> string" where
  "Base32 f = b32_EncodeToString (Bytes f)"

text \<open>
  \<^verbatim>\<open>func Decode(s string) (flake Flake, err error)\<close>: the switch on \<^verbatim>\<open>len(s)\<close>, the return on
  an error and the call of \<^verbatim>\<open>FromBytes\<close>.
\<close>

definition Decode :: "string \<Rightarrow> error + Flake" where
  "Decode s =
     (let r = (if length s = 11 then b64_DecodeString s
               else if length s = 13 then b32_DecodeString s
               else if length s = 16 then hex_DecodeString s
               else Inl UnknownFormat)
      in case r of Inl err \<Rightarrow> Inl err | Inr b \<Rightarrow> FromBytes b)"

text \<open>
  The 24-bit group that \<^verbatim>\<open>Encode\<close> of \<^verbatim>\<open>encoding/base64\<close> forms from three bytes, named for
  the proofs.
\<close>

definition b64_group :: "byte \<Rightarrow> byte \<Rightarrow> byte \<Rightarrow> uint64" where
  "b64_group a b c = push_bit 16 (ucast a) OR push_bit 8 (ucast b) OR ucast c"

text \<open>
  The low-load policy as the specification words it, for comparison: a counter
  concatenated with sixteen fresh random bits.
\<close>

definition spec_low_load :: "int32 \<Rightarrow> byte \<Rightarrow> byte \<Rightarrow> int32" where
  "spec_low_load s r1 r2 = push_bit 16 s OR ucast (word_cat r1 r2 :: 16 word)"

text \<open>
  The position that the shuffle gives to bit \<open>n\<close>: row and column of the 8 by 8 bit
  matrix exchanged.
\<close>

definition transpose_index :: "nat \<Rightarrow> nat" where
  "transpose_index n = 8 * (n mod 8) + n div 8"

text \<open>The term that one pass of the inner loop of \<^verbatim>\<open>Next\<close> adds to \<open>uid[l]\<close>.\<close>

definition shuffle_term :: "int64 \<Rightarrow> nat \<Rightarrow> nat \<Rightarrow> byte" where
  "shuffle_term raw0 i l = ucast (signed_drop_bit (i * 7 + l) (raw0 AND push_bit (i * 8 + l) 1))"

section \<open>Arithmetic of the fields\<close>

lemma intervalMask_eq: "intervalMask = mask 32"
  by (simp add: intervalMask_def intervalBits_def mask_eq_exp_minus_1)

lemma interval_of_take_bit: "interval_of now e = take_bit 32 (signed_drop_bit 30 (now - e))"
  by (simp only: interval_of_def intervalMask_eq ignoredTimeBits_def take_bit_eq_mask)

lemma uint_mod32_sint: "uint (w :: 64 word) mod 2 ^ 32 = sint w mod 2 ^ 32"
proof -
  have "take_bit 32 (uint w) = take_bit 32 (sint w)"
    by (rule bit_eqI) (auto simp: bit_simps bit_uint_iff bit_sint_iff)
  then show ?thesis by (simp add: take_bit_eq_mod)
qed

lemma sint_diff_shifted:
  "(sint (a - b :: 64 word) div 2 ^ 30) mod 2 ^ 32 = ((sint a - sint b) div 2 ^ 30) mod 2 ^ 32"
proof -
  have "take_bit 32 (drop_bit 30 (sint (a - b))) = take_bit 32 (drop_bit 30 (sint a - sint b))"
    apply (simp add: sint_word_ariths)
    apply (rule bit_eqI)
    apply (auto simp: bit_simps)
    done
  then show ?thesis by (simp add: take_bit_eq_mod drop_bit_eq_div)
qed

lemma interval_of_uint:
  "uint (interval_of now e) = ((sint now - sint e) div 2 ^ 30) mod 2 ^ 32"
proof -
  have "uint (interval_of now e) = take_bit 32 (uint (signed_drop_bit 30 (now - e)))"
    by (simp only: interval_of_take_bit unsigned_take_bit_eq)
  also have "\<dots> = uint (signed_drop_bit 30 (now - e)) mod 2 ^ 32"
    by (simp only: take_bit_eq_mod)
  also have "\<dots> = sint (signed_drop_bit 30 (now - e)) mod 2 ^ 32"
    by (rule uint_mod32_sint)
  also have "\<dots> = (sint (now - e) div 2 ^ 30) mod 2 ^ 32"
    by (simp only: sint_signed_drop_bit_eq drop_bit_eq_div)
  finally show ?thesis by (simp only: sint_diff_shifted)
qed

lemma interval_of_less: "uint (interval_of now e) < 2 ^ 32"
  by (simp only: interval_of_uint) simp

lemma push_bit_or_low_int:
  fixes a b :: int
  assumes "0 \<le> b" "b < 2 ^ n"
  shows "push_bit n a OR b = a * 2 ^ n + b"
proof -
  have b: "take_bit n b = b"
    using assms by (simp add: take_bit_int_eq_self)
  have "push_bit n a AND take_bit n b = 0"
    by (rule bit_eqI) (auto simp: bit_simps)
  then have "push_bit n a + b = push_bit n a OR b"
    using b by (simp add: disjunctive_add_eq_or)
  then show ?thesis by (simp add: push_bit_eq_mult)
qed

lemma uint_randomByte: "uint (randomByte r) = uint r"
  by (simp add: randomByte_def uint_up_ucast is_up)

lemma uint_byte_bounds: "0 \<le> uint (r :: byte) \<and> uint r < 256"
  using uint_bounded [of r] by simp

lemma uint_of_sint32: "0 \<le> sint (s :: int32) \<Longrightarrow> uint s = sint s"
  using sint_lt [of s] by (simp add: uint_sint take_bit_int_eq_self)

lemma uint_push_bit_small:
  fixes w :: "'a::len word"
  assumes "uint w * 2 ^ n < 2 ^ LENGTH('a)"
  shows "uint (push_bit n w) = uint w * 2 ^ n"
proof -
  have "uint (push_bit n w) = take_bit LENGTH('a) (push_bit n (uint w))"
    by (rule unsigned_push_bit_eq)
  also have "\<dots> = take_bit LENGTH('a) (uint w * 2 ^ n)"
    by (simp only: push_bit_eq_mult)
  also have "\<dots> = uint w * 2 ^ n"
    using assms by (intro take_bit_int_eq_self) simp_all
  finally show ?thesis .
qed

lemma low_load_uint:
  fixes s :: int32
  assumes "0 \<le> sint s" "sint s < 0x20"
  shows "uint (push_bit 16 s OR push_bit 8 (randomByte r1) OR randomByte r2)
           = 65536 * sint s + 256 * uint r1 + uint r2"
proof -
  have s: "uint s = sint s" using assms(1) by (rule uint_of_sint32)
  have a: "uint (push_bit 16 s) = push_bit 16 (sint s)"
    using assms s uint_push_bit_small [of s 16] by (simp add: push_bit_eq_mult)
  have b: "uint (push_bit 8 (randomByte r1)) = push_bit 8 (uint r1)"
    using uint_byte_bounds [of r1] uint_push_bit_small [of "randomByte r1" 8]
    by (simp add: uint_randomByte push_bit_eq_mult)
  have c: "push_bit 8 (uint r1) OR uint r2 = uint r1 * 2 ^ 8 + uint r2"
    using uint_byte_bounds [of r2] by (intro push_bit_or_low_int) simp_all
  have d: "push_bit 16 (sint s) OR (uint r1 * 2 ^ 8 + uint r2)
             = sint s * 2 ^ 16 + (uint r1 * 2 ^ 8 + uint r2)"
    using uint_byte_bounds [of r1] uint_byte_bounds [of r2]
    by (intro push_bit_or_low_int) simp_all
  have "uint (push_bit 16 s OR push_bit 8 (randomByte r1) OR randomByte r2)
          = push_bit 16 (sint s) OR (push_bit 8 (uint r1) OR uint r2)"
    by (simp only: uint_or a b uint_randomByte or.assoc)
  then show ?thesis by (simp only: c d) simp
qed

lemma medium_load_uint:
  fixes s :: int32
  assumes "0x20 \<le> sint s" "sint s < 0x2020"
  shows "uint ((0x200000 - 0x2000 + push_bit 8 s) OR randomByte r1)
           = 0x1FE000 + 256 * sint s + uint r1"
proof -
  have s: "uint s = sint s" using assms(1) by (intro uint_of_sint32) simp
  have e: "(0x200000 - 0x2000 + push_bit 8 s :: int32) = push_bit 8 (0x1FE0 + s)"
    by (simp add: push_bit_eq_mult algebra_simps)
  have f: "uint (0x1FE0 + s) = 0x1FE0 + sint s"
    using assms s by (simp add: uint_word_ariths take_bit_int_eq_self take_bit_eq_mod)
  have a: "uint (push_bit 8 (0x1FE0 + s)) = push_bit 8 (0x1FE0 + sint s)"
    using assms f uint_push_bit_small [of "0x1FE0 + s" 8] by (simp add: push_bit_eq_mult)
  have c: "push_bit 8 (0x1FE0 + sint s) OR uint r1 = (0x1FE0 + sint s) * 2 ^ 8 + uint r1"
    using uint_byte_bounds [of r1] by (intro push_bit_or_low_int) simp_all
  show ?thesis by (simp only: e uint_or a uint_randomByte c) simp
qed

lemma high_load_uint:
  fixes s :: int32
  assumes "0x2020 \<le> sint s" "sint s < 2 ^ 31 - 0x3FDFE0"
  shows "uint (0x400000 - 0x2020 + s) = 0x3FDFE0 + sint s"
proof -
  have s: "uint s = sint s" using assms(1) by (intro uint_of_sint32) simp
  show ?thesis
    using assms s by (simp add: uint_word_ariths take_bit_int_eq_self take_bit_eq_mod)
qed

lemma low_load_word_cat:
  "push_bit 16 s OR push_bit 8 (randomByte r1) OR randomByte r2 = spec_low_load s r1 r2"
  unfolding spec_low_load_def randomByte_def
  by (rule bit_word_eqI) (auto simp: bit_simps dest: bit_imp_le_length)

section \<open>The interval\<close>

text \<open>
  C9. On every call, \<^verbatim>\<open>next\<close> assembles its result from the interval
  \<open>((now - epochStart) >> 30) & (2^32 - 1)\<close>. Read as a number, this is the difference of the
  two instants, divided by \<open>2^30\<close> (rounding down) and reduced modulo \<open>2^32\<close>: a value
  below \<open>2^32\<close> for every clock reading and every epoch origin, also where the subtraction
  wraps around.
\<close>

theorem next_interval_formula:
  "fst (flaker_next g now r1 r2)
     = assemble (interval_of now (epochStart g))
         (fst (next_locked g (interval_of now (epochStart g)) r1 r2)) (machineId g)
   \<and> interval_of now (epochStart g)
       = signed_drop_bit 30 (now - epochStart g) AND (2 ^ 32 - 1)
   \<and> uint (interval_of now (epochStart g))
       = ((sint now - sint (epochStart g)) div 2 ^ 30) mod 2 ^ 32
   \<and> uint (interval_of now (epochStart g)) < 2 ^ 32"
proof -
  have 1: "fst (flaker_next g now r1 r2)
     = assemble (interval_of now (epochStart g))
         (fst (next_locked g (interval_of now (epochStart g)) r1 r2)) (machineId g)"
    by (simp add: flaker_next_def Let_def split_beta)
  have 2: "interval_of now (epochStart g)
       = signed_drop_bit 30 (now - epochStart g) AND (2 ^ 32 - 1)"
    by (simp add: interval_of_def ignoredTimeBits_def intervalMask_def intervalBits_def)
  from 1 2 interval_of_uint [of now "epochStart g"] interval_of_less [of now "epochStart g"]
  show ?thesis by blast
qed

section \<open>The allocator ladder\<close>

text \<open>
  C1. When a call lands in the same logical interval, the counter is incremented and the
  field is chosen by the value \<open>s\<close> of the counter after the increment: below 32 it is
  \<open>s << 16\<close> with sixteen random bits, from 32 and below 8224 it is
  \<open>0x200000 - 0x2000 + (s << 8)\<close> with eight random bits, from 8224 on it is
  \<open>0x400000 - 0x2020 + s\<close> with no random bit. As numbers, for a counter that is not
  negative: \<open>65536 s + 256 r1 + r2\<close>, then \<open>0x1FE000 + 256 s + r1\<close>, then \<open>0x3FDFE0 + s\<close>.
\<close>

theorem next_same_interval_ladder:
  assumes "same_interval g (interval_of now (epochStart g))"
  shows "flaker_next g now r1 r2
           = (assemble (interval_of now (epochStart g))
                (fst (next_locked g (interval_of now (epochStart g)) r1 r2)) (machineId g),
              g\<lparr>sequence := sequence g + 1\<rparr>)
    \<and> (sint (sequence g + 1) < 32 \<longrightarrow>
          fst (next_locked g (interval_of now (epochStart g)) r1 r2)
            = push_bit 16 (sequence g + 1) OR ucast (word_cat r1 r2 :: 16 word))
    \<and> (0 \<le> sint (sequence g + 1) \<and> sint (sequence g + 1) < 32 \<longrightarrow>
          uint (fst (next_locked g (interval_of now (epochStart g)) r1 r2))
            = 65536 * sint (sequence g + 1) + 256 * uint r1 + uint r2)
    \<and> (32 \<le> sint (sequence g + 1) \<and> sint (sequence g + 1) < 8224 \<longrightarrow>
          fst (next_locked g (interval_of now (epochStart g)) r1 r2)
            = (0x200000 - 0x2000 + push_bit 8 (sequence g + 1)) OR ucast r1
          \<and> uint (fst (next_locked g (interval_of now (epochStart g)) r1 r2))
            = 0x1FE000 + 256 * sint (sequence g + 1) + uint r1)
    \<and> (8224 \<le> sint (sequence g + 1) \<longrightarrow>
          fst (next_locked g (interval_of now (epochStart g)) r1 r2)
            = 0x400000 - 0x2020 + (sequence g + 1))
    \<and> (8224 \<le> sint (sequence g + 1) \<and> sint (sequence g + 1) < 2 ^ 31 - 0x3FDFE0 \<longrightarrow>
          uint (fst (next_locked g (interval_of now (epochStart g)) r1 r2))
            = 0x3FDFE0 + sint (sequence g + 1))"
proof -
  let ?i = "interval_of now (epochStart g)"
  let ?s = "sequence g + 1"
  have low: "fst (next_locked g ?i r1 r2)
      = push_bit 16 ?s OR push_bit 8 (randomByte r1) OR randomByte r2" if "sint ?s < 32"
    using assms that by (simp add: next_locked_def Let_def)
  have med: "fst (next_locked g ?i r1 r2)
      = (0x200000 - 0x2000 + push_bit 8 ?s) OR randomByte r1"
    if "32 \<le> sint ?s" "sint ?s < 8224"
    using assms that by (simp add: next_locked_def Let_def)
  have high: "fst (next_locked g ?i r1 r2) = 0x400000 - 0x2020 + ?s" if "8224 \<le> sint ?s"
    using assms that by (simp add: next_locked_def Let_def)
  have st: "snd (next_locked g ?i r1 r2) = g\<lparr>sequence := ?s\<rparr>"
    using assms by (simp add: next_locked_def Let_def)
  have 1: "flaker_next g now r1 r2
      = (assemble ?i (fst (next_locked g ?i r1 r2)) (machineId g), g\<lparr>sequence := ?s\<rparr>)"
    by (simp add: flaker_next_def Let_def split_beta st)
  have 2: "sint ?s < 32 \<longrightarrow> fst (next_locked g ?i r1 r2)
      = push_bit 16 ?s OR ucast (word_cat r1 r2 :: 16 word)"
    using low by (simp add: low_load_word_cat spec_low_load_def)
  have 3: "0 \<le> sint ?s \<and> sint ?s < 32 \<longrightarrow>
      uint (fst (next_locked g ?i r1 r2)) = 65536 * sint ?s + 256 * uint r1 + uint r2"
    using low low_load_uint [of ?s r1 r2] by simp
  have 4: "32 \<le> sint ?s \<and> sint ?s < 8224 \<longrightarrow>
      fst (next_locked g ?i r1 r2) = (0x200000 - 0x2000 + push_bit 8 ?s) OR ucast r1
      \<and> uint (fst (next_locked g ?i r1 r2)) = 0x1FE000 + 256 * sint ?s + uint r1"
    using med medium_load_uint [of ?s r1] by (simp add: randomByte_def)
  have 5: "8224 \<le> sint ?s \<longrightarrow> fst (next_locked g ?i r1 r2) = 0x400000 - 0x2020 + ?s"
    using high by simp
  have 6: "8224 \<le> sint ?s \<and> sint ?s < 2 ^ 31 - 0x3FDFE0 \<longrightarrow>
      uint (fst (next_locked g ?i r1 r2)) = 0x3FDFE0 + sint ?s"
    using high high_load_uint [of ?s] by simp
  from 1 2 3 4 5 6 show ?thesis by blast
qed

text \<open>
  The ladder at a counter of 4, of 99 and of 9000 before the call, one interval after the
  epoch origin, with the random bytes \<open>0xAB\<close> and \<open>0xCD\<close>.
\<close>

theorem next_same_interval_ladder_witness:
  "same_interval ((Raw 7)\<lparr>sequence := 4, currentInterval := 1\<rparr>)
      (interval_of 1577833201073741824 1577833200000000000)
   \<and> uint (fst (next_locked ((Raw 7)\<lparr>sequence := 4, currentInterval := 1\<rparr>)
        (interval_of 1577833201073741824 1577833200000000000) 0xAB 0xCD)) = 0x5ABCD
   \<and> same_interval ((Raw 7)\<lparr>sequence := 99, currentInterval := 1\<rparr>)
      (interval_of 1577833201073741824 1577833200000000000)
   \<and> uint (fst (next_locked ((Raw 7)\<lparr>sequence := 99, currentInterval := 1\<rparr>)
        (interval_of 1577833201073741824 1577833200000000000) 0xAB 0xCD)) = 0x2044AB
   \<and> same_interval ((Raw 7)\<lparr>sequence := 9000, currentInterval := 1\<rparr>)
      (interval_of 1577833201073741824 1577833200000000000)
   \<and> uint (fst (next_locked ((Raw 7)\<lparr>sequence := 9000, currentInterval := 1\<rparr>)
        (interval_of 1577833201073741824 1577833200000000000) 0xAB 0xCD)) = 0x400309"
proof -
  let ?t = "1577833201073741824 :: int64"
  let ?l = "(Raw 7)\<lparr>sequence := 4, currentInterval := 1\<rparr>"
  let ?m = "(Raw 7)\<lparr>sequence := 99, currentInterval := 1\<rparr>"
  let ?h = "(Raw 7)\<lparr>sequence := 9000, currentInterval := 1\<rparr>"
  have e: "epochStart ?l = 1577833200000000000" "epochStart ?m = 1577833200000000000"
    "epochStart ?h = 1577833200000000000"
    by (simp_all add: Raw_def)
  have l: "same_interval ?l (interval_of ?t (epochStart ?l))" by code_simp
  have m: "same_interval ?m (interval_of ?t (epochStart ?m))" by code_simp
  have h: "same_interval ?h (interval_of ?t (epochStart ?h))" by code_simp
  note c2 = conjunct2
  from l m h
    next_same_interval_ladder [of ?l ?t "0xAB" "0xCD", OF l, THEN c2, THEN c2, THEN conjunct1]
    next_same_interval_ladder [of ?m ?t "0xAB" "0xCD", OF m, THEN c2, THEN c2, THEN c2,
      THEN conjunct1, THEN mp, THEN c2]
    next_same_interval_ladder [of ?h ?t "0xAB" "0xCD", OF h, THEN c2, THEN c2, THEN c2,
      THEN c2, THEN c2]
  show ?thesis by (simp add: e)
qed

text \<open>
  When the interval has advanced, so that the guard of the critical section fails,
  \<^verbatim>\<open>next\<close> stores the new interval and resets the counter; the local field keeps its
  initial value 0 and neither random byte is read, whatever the state and the clock.
\<close>

lemma next_new_interval:
  assumes "\<not> same_interval g (interval_of now (epochStart g))"
  shows "flaker_next g now r1 r2
           = (push_bit 31 (interval_of now (epochStart g)) OR ucast (machineId g),
              g\<lparr>currentInterval := interval_of now (epochStart g), sequence := 0\<rparr>)"
    and "fst (next_locked g (interval_of now (epochStart g)) r1 r2) = 0"
  using assms
  by (simp_all add: flaker_next_def next_locked_def assemble_def Let_def
      sequenceBits_def machineIdBits_def push_bit_push_bit)

text \<open>
  C2. The first call of a new interval is to return the low-load field of the reset
  counter: counter 0 above sixteen fresh random bits. The code does reset the counter,
  but returns the field 0. A fresh raw generator with machine id 7, called at the start
  of interval 1, takes the reset branch and returns \<open>0x80000007\<close> both with the random
  bytes 1, 2 and with \<open>0xAB\<close>, \<open>0xCD\<close>, where the low-load field would be \<open>0x0102\<close> and
  \<open>0xABCD\<close>. The second call of the same interval, 200 ns later, goes through the
  low-load branch and does carry the two random bytes, below the counter 1.
\<close>

theorem first_call_of_interval_has_zero_field:
  "\<not> same_interval (Raw 7) (interval_of 1577833201073741824 (epochStart (Raw 7)))
   \<and> fst (next_locked (Raw 7) (interval_of 1577833201073741824 (epochStart (Raw 7))) 1 2) = 0
   \<and> fst (next_locked (Raw 7) (interval_of 1577833201073741824 (epochStart (Raw 7)))
         0xAB 0xCD) = 0
   \<and> sequence (snd (next_locked (Raw 7)
         (interval_of 1577833201073741824 (epochStart (Raw 7))) 1 2)) = 0
   \<and> spec_low_load 0 1 2 = 0x0102
   \<and> spec_low_load 0 0xAB 0xCD = 0xABCD
   \<and> fst (run (Raw 7) [(1577833201073741824, 1, 2), (1577833201073742024, 1, 2)])
       = [Some 0x80000007, Some 0x81010207]
   \<and> fst (run (Raw 7) [(1577833201073741824, 0xAB, 0xCD), (1577833201073742024, 0xAB, 0xCD)])
       = [Some 0x80000007, Some 0x81ABCD07]"
proof -
  have e: "epochStart (Raw 7) = 1577833200000000000"
    by (simp add: Raw_def)
  have i: "interval_of 1577833201073741824 1577833200000000000 = 1"
    by code_simp
  have n: "\<not> same_interval (Raw 7) 1"
    by code_simp
  have f1: "fst (next_locked (Raw 7) 1 1 2) = 0"
    by code_simp
  have f2: "fst (next_locked (Raw 7) 1 0xAB 0xCD) = 0"
    by code_simp
  have s: "sequence (snd (next_locked (Raw 7) 1 1 2)) = 0"
    by code_simp
  have l1: "spec_low_load 0 1 2 = 0x0102"
    by code_simp
  have l2: "spec_low_load 0 0xAB 0xCD = 0xABCD"
    by code_simp
  have r1: "fst (run (Raw 7) [(1577833201073741824, 1, 2), (1577833201073742024, 1, 2)])
       = [Some 0x80000007, Some 0x81010207]"
    by code_simp
  have r2: "fst (run (Raw 7)
         [(1577833201073741824, 0xAB, 0xCD), (1577833201073742024, 0xAB, 0xCD)])
       = [Some 0x80000007, Some 0x81ABCD07]"
    by code_simp
  show ?thesis
    unfolding e i by (intro conjI n f1 f2 s l1 l2 r1 r2)
qed

section \<open>The bit shuffle is the transpose of the bit matrix\<close>

lemma bit_shuffle_term:
  assumes "i < 8" "l < 8"
  shows "bit (shuffle_term raw0 i l) j \<longleftrightarrow> j = i \<and> bit raw0 (8 * i + l)"
  using assms unfolding shuffle_term_def
  by (auto simp: bit_simps)

lemma inner_loop:
  assumes "length uid = 8" "n \<le> 8"
  shows "length (fold (\<lambda>l uid. shuffle_step raw0 i l uid) [0..<n] uid) = 8
    \<and> (\<forall>k<8. fold (\<lambda>l uid. shuffle_step raw0 i l uid) [0..<n] uid ! k
          = (if k < n then uid ! k OR shuffle_term raw0 i k else uid ! k))"
  using assms(2)
proof (induction n)
  case 0
  then show ?case using assms(1) by simp
next
  case (Suc n)
  then show ?case
    by (auto simp: shuffle_step_def shuffle_term_def nth_list_update less_Suc_eq)
qed

lemma outer_loop:
  assumes "m \<le> 8"
  shows "length (fold (\<lambda>i uid. fold (\<lambda>l uid. shuffle_step raw0 i l uid) [0..<8] uid) [0..<m]
            (replicate 8 0)) = 8
    \<and> (\<forall>k<8. \<forall>j. bit (fold (\<lambda>i uid. fold (\<lambda>l uid. shuffle_step raw0 i l uid) [0..<8] uid)
            [0..<m] (replicate 8 0) ! k) j \<longleftrightarrow> j < m \<and> bit raw0 (8 * j + k))"
  using assms
proof (induction m)
  case 0
  then show ?case by simp
next
  case (Suc m)
  let ?u = "fold (\<lambda>i uid. fold (\<lambda>l uid. shuffle_step raw0 i l uid) [0..<8] uid) [0..<m]
            (replicate 8 0)"
  from Suc have len: "length ?u = 8"
    and bits: "\<And>k j. k < 8 \<Longrightarrow> bit (?u ! k) j \<longleftrightarrow> j < m \<and> bit raw0 (8 * j + k)"
    by simp_all
  from Suc.prems have m: "m < 8" by simp
  note il = inner_loop [OF len, of 8 raw0 m, simplified]
  show ?case
    using il m by (auto simp: bit_or_iff bits bit_shuffle_term less_Suc_eq)
qed

lemma shuffle_bytes_bits:
  "length (shuffle_bytes raw0) = 8"
  "k < 8 \<Longrightarrow> bit (shuffle_bytes raw0 ! k) j \<longleftrightarrow> j < 8 \<and> bit raw0 (8 * j + k)"
  using outer_loop [of 8 raw0] by (simp_all add: shuffle_bytes_def)

lemma le_Uint64_bits:
  assumes "length bs = 8"
  shows "\<exists>y. le_Uint64 bs = Some y \<and> (\<forall>n<64. bit y n = bit (bs ! (n div 8)) (n mod 8))"
proof -
  from assms obtain b0 b1 b2 b3 b4 b5 b6 b7 where bs: "bs = [b0, b1, b2, b3, b4, b5, b6, b7]"
    by (auto simp: length_Suc_conv eval_nat_numeral)
  define y where "y = (ucast b0 OR push_bit 8 (ucast b1) OR push_bit 16 (ucast b2)
       OR push_bit 24 (ucast b3) OR push_bit 32 (ucast b4) OR push_bit 40 (ucast b5)
       OR push_bit 48 (ucast b6) OR push_bit 56 (ucast b7) :: uint64)"
  have y: "le_Uint64 bs = Some y"
    by (simp add: bs y_def)
  have "bit y n = bit (bs ! (n div 8)) (n mod 8)" if "n < 64" for n
  proof -
    define q r where "q = n div 8" and "r = n mod 8"
    have r: "r < 8" and q: "q < 8"
      using that by (simp_all add: q_def r_def)
    from q have "q \<in> {0, 1, 2, 3, 4, 5, 6, 7}" by auto
    then have "bit y (8 * q + r) = bit (bs ! q) r"
      unfolding y_def bs using r
      by (elim insertE emptyE) (auto simp: bit_simps dest: bit_imp_le_length)
    then show ?thesis unfolding q_def r_def by simp
  qed
  with y show ?thesis by blast
qed

lemma shuffle_bits:
  "\<exists>y. shuffle x = Some y \<and> (\<forall>n<64. bit y n = bit x (transpose_index n))"
proof -
  from le_Uint64_bits [OF shuffle_bytes_bits(1), of x] obtain y
    where y: "le_Uint64 (shuffle_bytes x) = Some y"
      and b: "\<And>n. n < 64 \<Longrightarrow> bit y n = bit (shuffle_bytes x ! (n div 8)) (n mod 8)"
    by blast
  have "bit y n = bit x (transpose_index n)" if "n < 64" for n
    using that b [OF that] shuffle_bytes_bits(2) [of "n div 8" x "n mod 8"]
    by (simp add: transpose_index_def)
  with y show ?thesis by (auto simp: shuffle_def)
qed

lemma transpose_index_involution:
  assumes "n < 64"
  shows "transpose_index (transpose_index n) = n"
proof -
  from assms have d: "n div 8 < 8" by simp
  then have "(8 * (n mod 8) + n div 8) mod 8 = n div 8"
    and "(8 * (n mod 8) + n div 8) div 8 = n mod 8"
    by simp_all
  then show ?thesis by (simp add: transpose_index_def)
qed

lemma transpose_index_less:
  assumes "n < 64"
  shows "transpose_index n < 64"
proof -
  have "n mod 8 < 8" by simp
  moreover from assms have "n div 8 < 8" by simp
  ultimately show ?thesis unfolding transpose_index_def by linarith
qed

lemma transpose_index_matrix: "i < 8 \<Longrightarrow> l < 8 \<Longrightarrow> transpose_index (8 * l + i) = 8 * i + l"
  by (simp add: transpose_index_def)

lemma shuffle_total: "\<exists>y. shuffle x = Some y"
  using shuffle_bits [of x] by blast

lemma shuffle_involution:
  assumes "shuffle x = Some y"
  shows "shuffle y = Some x"
proof -
  from shuffle_bits [of x] assms
  have xy: "\<And>n. n < 64 \<Longrightarrow> bit y n = bit x (transpose_index n)"
    by auto
  from shuffle_bits [of y] obtain z where z: "shuffle y = Some z"
    and yz: "\<And>n. n < 64 \<Longrightarrow> bit z n = bit y (transpose_index n)"
    by auto
  have "z = x"
  proof (rule bit_word_eqI)
    fix n assume "n < LENGTH(64)"
    then have n: "n < 64" by simp
    show "bit z n = bit x n"
      using yz [OF n] xy [OF transpose_index_less [OF n]] transpose_index_involution [OF n]
      by simp
  qed
  with z show ?thesis by simp
qed

lemma shuffle_sign:
  assumes "shuffle x = Some y"
  shows "bit y 63 = bit x 63" and "sint y < 0 \<longleftrightarrow> sint x < 0"
proof -
  from shuffle_bits [of x] assms have "bit y 63 = bit x (transpose_index 63)"
    by auto
  then show b: "bit y 63 = bit x 63"
    by (simp add: transpose_index_def)
  from b bit_last_iff [of x] bit_last_iff [of y] show "sint y < 0 \<longleftrightarrow> sint x < 0"
    by simp
qed

text \<open>
  C10. The shuffle of \<^verbatim>\<open>Next\<close> never fails and moves the bit at position \<open>8 i + l\<close> of the
  raw value to position \<open>8 l + i\<close>, for all \<open>i\<close> and \<open>l\<close> below 8. Bit 63 stays where it is,
  so a raw value that is not negative gives an identifier that is not negative. The
  shuffle is a bijection on the 64-bit values: no other raw value has the same image, and
  every value is an image. In shuffled mode \<^verbatim>\<open>Next\<close> returns the shuffle of what
  \<^verbatim>\<open>next\<close> returns.
\<close>

theorem shuffle_transposes_bits:
  "\<exists>y. shuffle x = Some y
     \<and> (\<forall>i<8. \<forall>l<8. bit y (8 * l + i) = bit x (8 * i + l))
     \<and> bit y 63 = bit x 63
     \<and> (0 \<le> sint x \<longrightarrow> 0 \<le> sint y)
     \<and> (\<forall>x'. shuffle x' = Some y \<longrightarrow> x' = x)
     \<and> (\<exists>x'. shuffle x' = Some x)
     \<and> (\<not> raw g \<longrightarrow> fst (flaker_Next g now r1 r2) = shuffle (fst (flaker_next g now r1 r2)))"
proof -
  from shuffle_bits [of x] obtain y where y: "shuffle x = Some y"
    and b: "\<And>n. n < 64 \<Longrightarrow> bit y n = bit x (transpose_index n)"
    by blast
  have 1: "\<forall>i<8. \<forall>l<8. bit y (8 * l + i) = bit x (8 * i + l)"
  proof (intro allI impI)
    fix i l :: nat
    assume "i < 8" "l < 8"
    then have "8 * l + i < 64" by simp
    from b [OF this] show "bit y (8 * l + i) = bit x (8 * i + l)"
      using \<open>i < 8\<close> \<open>l < 8\<close> by (simp add: transpose_index_matrix)
  qed
  have 2: "bit y 63 = bit x 63"
    using shuffle_sign(1) [OF y] .
  have 3: "0 \<le> sint x \<longrightarrow> 0 \<le> sint y"
    using shuffle_sign(2) [OF y] by auto
  have 4: "\<forall>x'. shuffle x' = Some y \<longrightarrow> x' = x"
  proof (intro allI impI)
    fix x' assume "shuffle x' = Some y"
    from shuffle_involution [OF this] shuffle_involution [OF y] show "x' = x"
      by simp
  qed
  from shuffle_total [of x] obtain z where z: "shuffle x = Some z" ..
  have 5: "\<exists>x'. shuffle x' = Some x"
    using shuffle_involution [OF y] by blast
  have 6: "\<not> raw g \<longrightarrow> fst (flaker_Next g now r1 r2) = shuffle (fst (flaker_next g now r1 r2))"
    by (simp add: flaker_Next_def split_beta)
  from y 1 2 3 4 5 6 show ?thesis by blast
qed

text \<open>
  The shuffle of the first identifier of the table of examples in the README,
  \<open>0x4030404040700001\<close>, which is the shuffle of the raw value \<open>0xBC444400000001\<close>.
\<close>

theorem shuffle_transposes_bits_witness:
  "shuffle 0xBC444400000001 = Some 0x4030404040700001
   \<and> bit (0x4030404040700001 :: int64) (8 * 6 + 2) = bit (0xBC444400000001 :: int64) (8 * 2 + 6)
   \<and> 0 \<le> sint (0xBC444400000001 :: int64) \<and> 0 \<le> sint (0x4030404040700001 :: int64)
   \<and> \<not> raw (Default 1)
   \<and> fst (flaker_Next (Default 1) 1577833201073741824 1 2) = Some 0x0800000000000001"
proof -
  have e: "shuffle 0xBC444400000001 = Some 0x4030404040700001"
    by code_simp
  have d: "\<not> raw (Default 1)"
    by (simp add: Default_def)
  have r: "fst (flaker_next (Default 1) 1577833201073741824 1 2) = 0x80000001"
    by code_simp
  have n: "shuffle 0x80000001 = Some 0x0800000000000001"
    by code_simp
  have p: "0 \<le> sint (0xBC444400000001 :: int64)"
    by simp
  from shuffle_transposes_bits [of "0xBC444400000001" "Default 1" 1577833201073741824 1 2]
  obtain y where y: "shuffle 0xBC444400000001 = Some y"
    and b: "\<forall>i<8. \<forall>l<8. bit y (8 * l + i) = bit (0xBC444400000001 :: int64) (8 * i + l)"
    and s: "0 \<le> sint (0xBC444400000001 :: int64) \<longrightarrow> 0 \<le> sint y"
    and f: "\<not> raw (Default 1) \<longrightarrow> fst (flaker_Next (Default 1) 1577833201073741824 1 2)
              = shuffle (fst (flaker_next (Default 1) 1577833201073741824 1 2))"
    by blast
  from y e have y': "y = 0x4030404040700001" by simp
  from b [rule_format, of 2 6]
  have t: "bit y (8 * 6 + 2) = bit (0xBC444400000001 :: int64) (8 * 2 + 6)"
    by simp
  from s p have q: "0 \<le> sint y" by blast
  from f d have "fst (flaker_Next (Default 1) 1577833201073741824 1 2)
                   = shuffle (fst (flaker_next (Default 1) 1577833201073741824 1 2))"
    by blast
  then have u: "fst (flaker_Next (Default 1) 1577833201073741824 1 2) = Some 0x0800000000000001"
    by (simp only: r n)
  note t' = t [unfolded y'] and q' = q [unfolded y']
  show ?thesis
    by (intro conjI e t' p q' d u)
qed

text \<open>
  C7 (as amended). The shuffle is its own inverse: applied to the identifier it produced
  from a raw value, it gives the raw value back, for every 64-bit value.
\<close>

theorem shuffle_self_inverse:
  "\<exists>y. shuffle x = Some y \<and> shuffle y = Some x"
  using shuffle_total [of x] shuffle_involution [of x] by blast

text \<open>No 63-bit value is changed by two applications of the shuffle.\<close>

theorem shuffle_twice_never_differs:
  "\<not> (\<exists>x y z. uint x < 2 ^ 63 \<and> shuffle x = Some y \<and> shuffle y = Some z \<and> z \<noteq> x)"
proof
  assume "\<exists>x y z. uint x < 2 ^ 63 \<and> shuffle x = Some y \<and> shuffle y = Some z \<and> z \<noteq> x"
  then obtain x y z :: int64 where xy: "shuffle x = Some y" and yz: "shuffle y = Some z"
    and ne: "z \<noteq> x"
    by blast
  from shuffle_involution [OF xy] yz ne show False
    by simp
qed

section \<open>Configured copies keep the counters\<close>

lemma WithMachineId_copy:
  assumes "p < length (flakers st)"
  shows "WithMachineId st p b
     = Some (length (flakers st),
         \<lparr>flakers = flakers st @ [(flakers st ! p)\<lparr>machineId := b, mutex := mutexes st\<rparr>],
          mutexes = Suc (mutexes st)\<rparr>)"
  using assms by (simp add: WithMachineId_def new_mutex_def Let_def)

lemma WithEpochStart_copy:
  assumes "p < length (flakers st)"
  shows "WithEpochStart st p t
     = Some (length (flakers st),
         \<lparr>flakers = flakers st @ [(flakers st ! p)\<lparr>epochStart := t, mutex := mutexes st\<rparr>],
          mutexes = Suc (mutexes st)\<rparr>)"
  using assms by (simp add: WithEpochStart_def new_mutex_def Let_def)

lemma wf_store_fresh:
  assumes "wf_store st"
  shows "mutexes st \<notin> mutex ` set (flakers st)"
  using assms by (auto simp: wf_store_def list_all_iff)

lemma wf_store_extend:
  assumes "wf_store st"
  shows "wf_store \<lparr>flakers = flakers st @ [g\<lparr>mutex := mutexes st\<rparr>], mutexes = Suc (mutexes st)\<rparr>"
  using assms by (auto simp: wf_store_def list_all_iff)

text \<open>
  C6 (as amended). Called on a generator of a well-formed store, \<^verbatim>\<open>WithMachineId\<close> and
  \<^verbatim>\<open>WithEpochStart\<close> each return the address of a new generator. It is a copy of the
  receiver with the one field set and with a mutex that no generator of the store has:
  the other configuration field and the mode are the receiver's, and so are the sequence
  counter and the current interval, which are copied and not zeroed. The generators that
  were in the store, the receiver among them, are unchanged.
\<close>

theorem With_copies_generator:
  assumes "p < length (flakers st)" and "wf_store st"
  shows "(\<exists>q st'. WithMachineId st p b = Some (q, st')
      \<and> q = length (flakers st) \<and> length (flakers st') = Suc q
      \<and> take q (flakers st') = flakers st
      \<and> flakers st' ! q = (flakers st ! p)\<lparr>machineId := b, mutex := mutex (flakers st' ! q)\<rparr>
      \<and> mutex (flakers st' ! q) \<notin> mutex ` set (flakers st)
      \<and> epochStart (flakers st' ! q) = epochStart (flakers st ! p)
      \<and> sequence (flakers st' ! q) = sequence (flakers st ! p)
      \<and> currentInterval (flakers st' ! q) = currentInterval (flakers st ! p)
      \<and> wf_store st')
    \<and> (\<exists>q st'. WithEpochStart st p t = Some (q, st')
      \<and> q = length (flakers st) \<and> length (flakers st') = Suc q
      \<and> take q (flakers st') = flakers st
      \<and> flakers st' ! q = (flakers st ! p)\<lparr>epochStart := t, mutex := mutex (flakers st' ! q)\<rparr>
      \<and> mutex (flakers st' ! q) \<notin> mutex ` set (flakers st)
      \<and> machineId (flakers st' ! q) = machineId (flakers st ! p)
      \<and> sequence (flakers st' ! q) = sequence (flakers st ! p)
      \<and> currentInterval (flakers st' ! q) = currentInterval (flakers st ! p)
      \<and> wf_store st')"
  using assms wf_store_fresh [OF assms(2)] wf_store_extend [OF assms(2)]
  by (simp add: WithMachineId_copy WithEpochStart_copy)

text \<open>
  The store in which the raw singleton has issued two identifiers in the first interval
  after the epoch origin; its generator then has the counter 1 and the current interval 1.
\<close>

theorem With_copies_generator_witness:
  "(1::nat) < length (flakers \<lparr>flakers = [Default 5,
        snd (flaker_next (snd (flaker_next (Raw 5) 1577833201073741824 1 2))
          1577833201073741824 1 2)], mutexes = 2\<rparr>)
   \<and> wf_store \<lparr>flakers = [Default 5,
        snd (flaker_next (snd (flaker_next (Raw 5) 1577833201073741824 1 2))
          1577833201073741824 1 2)], mutexes = 2\<rparr>
   \<and> (\<exists>q st'. WithMachineId \<lparr>flakers = [Default 5,
        snd (flaker_next (snd (flaker_next (Raw 5) 1577833201073741824 1 2))
          1577833201073741824 1 2)], mutexes = 2\<rparr> 1 9 = Some (q, st')
        \<and> q = 2 \<and> mutex (flakers st' ! q) \<notin> {0, 1} \<and> sequence (flakers st' ! q) = 1
        \<and> currentInterval (flakers st' ! q) = 1)
   \<and> (\<exists>q st'. WithEpochStart \<lparr>flakers = [Default 5,
        snd (flaker_next (snd (flaker_next (Raw 5) 1577833201073741824 1 2))
          1577833201073741824 1 2)], mutexes = 2\<rparr> 1 0 = Some (q, st')
        \<and> q = 2 \<and> mutex (flakers st' ! q) \<notin> {0, 1} \<and> sequence (flakers st' ! q) = 1
        \<and> currentInterval (flakers st' ! q) = 1)"
proof -
  let ?g = "snd (flaker_next (snd (flaker_next (Raw 5) 1577833201073741824 1 2))
          1577833201073741824 1 2)"
  let ?st = "\<lparr>flakers = [Default 5, ?g], mutexes = 2\<rparr>"
  have g: "?g = \<lparr>mutex = 1, raw = True, machineId = 5, epochStart = 1577833200000000000,
     sequence = 1, currentInterval = 1\<rparr>"
    by code_simp
  have p: "(1::nat) < length (flakers ?st)"
    by simp
  have w: "wf_store ?st"
    unfolding g by code_simp
  have m: "mutex ` set (flakers ?st) = {0, 1}"
    unfolding g by (simp add: Default_def)
  from With_copies_generator [OF p w, of 9 0]
  obtain q st' q2 st2 where
    a: "WithMachineId ?st 1 9 = Some (q, st')" "q = length (flakers ?st)"
      "mutex (flakers st' ! q) \<notin> mutex ` set (flakers ?st)"
      "sequence (flakers st' ! q) = sequence (flakers ?st ! 1)"
      "currentInterval (flakers st' ! q) = currentInterval (flakers ?st ! 1)"
    and b: "WithEpochStart ?st 1 0 = Some (q2, st2)" "q2 = length (flakers ?st)"
      "mutex (flakers st2 ! q2) \<notin> mutex ` set (flakers ?st)"
      "sequence (flakers st2 ! q2) = sequence (flakers ?st ! 1)"
      "currentInterval (flakers st2 ! q2) = currentInterval (flakers ?st ! 1)"
    by (elim conjE exE)
  have s: "sequence (flakers ?st ! 1) = 1" "currentInterval (flakers ?st ! 1) = 1"
    by (simp_all add: g)
  from a have a': "q = 2" "mutex (flakers st' ! q) \<notin> {0, 1}"
    "sequence (flakers st' ! q) = 1" "currentInterval (flakers st' ! q) = 1"
    unfolding m s by simp_all
  from b have b': "q2 = 2" "mutex (flakers st2 ! q2) \<notin> {0, 1}"
    "sequence (flakers st2 ! q2) = 1" "currentInterval (flakers st2 ! q2) = 1"
    unfolding m s by simp_all
  from a(1) a' have "\<exists>q st'. WithMachineId ?st 1 9 = Some (q, st')
        \<and> q = 2 \<and> mutex (flakers st' ! q) \<notin> {0, 1} \<and> sequence (flakers st' ! q) = 1
        \<and> currentInterval (flakers st' ! q) = 1"
    by blast
  moreover from b(1) b' have "\<exists>q st'. WithEpochStart ?st 1 0 = Some (q, st')
        \<and> q = 2 \<and> mutex (flakers st' ! q) \<notin> {0, 1} \<and> sequence (flakers st' ! q) = 1
        \<and> currentInterval (flakers st' ! q) = 1"
    by blast
  ultimately show ?thesis
    using p w by (intro conjI)
qed

text \<open>
  The counters of the copy are those of the receiver, here 1 and 1, and not zero.
\<close>

theorem With_keeps_counters:
  "map_option (\<lambda>(q, st'). (sequence (flakers st' ! q), currentInterval (flakers st' ! q)))
     (WithMachineId \<lparr>flakers = [Default 5,
        snd (flaker_next (snd (flaker_next (Raw 5) 1577833201073741824 1 2))
          1577833201073741824 1 2)], mutexes = 2\<rparr> 1 9) = Some (1, 1)
   \<and> map_option (\<lambda>(q, st'). (sequence (flakers st' ! q), currentInterval (flakers st' ! q)))
     (WithEpochStart \<lparr>flakers = [Default 5,
        snd (flaker_next (snd (flaker_next (Raw 5) 1577833201073741824 1 2))
          1577833201073741824 1 2)], mutexes = 2\<rparr> 1 0) = Some (1, 1)"
proof -
  have g: "snd (flaker_next (snd (flaker_next (Raw 5) 1577833201073741824 1 2))
          1577833201073741824 1 2) = \<lparr>mutex = 1, raw = True, machineId = 5,
     epochStart = 1577833200000000000, sequence = 1, currentInterval = 1\<rparr>"
    by code_simp
  show ?thesis
    unfolding g by (simp add: WithMachineId_def WithEpochStart_def new_mutex_def)
qed

section \<open>Bursts of calls within one interval\<close>

lemma flaker_Next_state: "snd (flaker_Next g now r1 r2) = snd (flaker_next g now r1 r2)"
  by (simp add: flaker_Next_def split_beta)

lemma flaker_Next_raw: "raw g \<Longrightarrow> fst (flaker_Next g now r1 r2) = Some (fst (flaker_next g now r1 r2))"
  by (simp add: flaker_Next_def split_beta)

lemma run_append:
  "run g (as @ bs) = (fst (run g as) @ fst (run (snd (run g as)) bs), snd (run (snd (run g as)) bs))"
  by (induction as arbitrary: g) (auto simp: split_beta Let_def)

lemma length_run: "length (fst (run g cs)) = length cs"
  by (induction cs arbitrary: g) (auto simp: split_beta Let_def)

lemma drop_run_append:
  "drop (length as) (fst (run g (as @ bs))) = fst (run (snd (run g as)) bs)"
  by (simp add: run_append length_run)

lemma sint_interval_of: "sint (interval_of now e) = uint (interval_of now e)"
proof -
  have "sint (interval_of now e) = signed_take_bit 63 (uint (interval_of now e))"
    by (simp add: sint_uint)
  also have "\<dots> = uint (interval_of now e)"
  proof -
    define u where "u = uint (interval_of now e)"
    have "0 \<le> u" "u < 2 ^ 32"
      using interval_of_less [of now e] by (simp_all add: u_def)
    then have "signed_take_bit 63 u = u"
      by (intro signed_take_bit_int_eq_self) simp_all
    then show ?thesis by (simp only: u_def)
  qed
  finally show ?thesis .
qed

lemma sint_loop:
  fixes s :: int32
  assumes "0 \<le> sint s" "sint s < 2 ^ 31 - 0x3FDFE0"
  shows "sint (signed_drop_bit 23 (s + 0x400000 - 0x2020)) = (sint s + 0x3FDFE0) div 2 ^ 23"
proof -
  have e: "s + 0x400000 - 0x2020 = s + 0x3FDFE0"
    by simp
  have "sint (s + 0x3FDFE0) = signed_take_bit 31 (sint s + 0x3FDFE0)"
    by (simp add: sint_word_ariths)
  also have "\<dots> = sint s + 0x3FDFE0"
    using assms by (intro signed_take_bit_int_eq_self) simp_all
  finally have "sint (s + 0x3FDFE0) = sint s + 0x3FDFE0" .
  then show ?thesis
    by (simp only: e sint_signed_drop_bit_eq drop_bit_eq_div)
qed

lemma same_interval_stays:
  assumes "currentInterval g = interval_of now (epochStart g)"
    and "0 \<le> sint (sequence g)" and "sint (sequence g) < 2 ^ 31 - 0x3FDFE0"
  shows "same_interval g (interval_of now (epochStart g))"
proof -
  let ?i = "interval_of now (epochStart g)"
  let ?l = "signed_drop_bit 23 (sequence g + 0x400000 - 0x2020)"
  have l: "sint ?l = (sint (sequence g) + 0x3FDFE0) div 2 ^ 23"
    using assms(2,3) by (rule sint_loop)
  have l0: "0 \<le> sint ?l" and l1: "sint ?l < 256"
    using assms(2,3) unfolding l by simp_all
  have sl: "sint (scast ?l :: int64) = sint ?l"
    by (simp add: sint_up_scast is_up)
  have i: "sint ?i = uint ?i" "0 \<le> uint ?i" "uint ?i < 2 ^ 32"
    using sint_interval_of [of now "epochStart g"] interval_of_less [of now "epochStart g"]
    by simp_all
  have "sint (?i - scast ?l) = signed_take_bit 63 (sint ?i - sint (scast ?l :: int64))"
    by (simp only: sint_word_diff) simp
  also have "\<dots> = signed_take_bit 63 (uint ?i - sint ?l)"
    by (simp only: sl i(1))
  also have "\<dots> = uint ?i - sint ?l"
  proof -
    define u v where "u = uint ?i" and "v = sint ?l"
    have "0 \<le> u" "u < 2 ^ 32" "0 \<le> v" "v < 256"
      using i(2,3) l0 l1 by (simp_all only: u_def v_def)
    then have "signed_take_bit 63 (u - v) = u - v"
      by (intro signed_take_bit_int_eq_self) simp_all
    then show ?thesis by (simp only: u_def v_def)
  qed
  finally have "sint (?i - scast ?l) \<le> sint ?i"
    using l0 i(1) by simp
  then show ?thesis
    by (simp only: same_interval_def sequenceBits_def assms(1) Let_def)
qed

lemma next_same_interval_state:
  assumes "same_interval g (interval_of now (epochStart g))"
  shows "snd (flaker_next g now r1 r2) = g\<lparr>sequence := sequence g + 1\<rparr>"
  using assms by (simp add: flaker_next_def next_locked_def Let_def split_beta)

lemma sint_succ:
  fixes s :: int32
  assumes "0 \<le> sint s" "sint s < 2 ^ 31 - 1"
  shows "sint (s + 1) = sint s + 1"
  using assms by (simp add: sint_word_ariths signed_take_bit_int_eq_self)

lemma run_same_interval:
  assumes "\<forall>c \<in> set cs. interval_of (fst c) (epochStart g) = currentInterval g"
    and "0 \<le> sint (sequence g)"
    and "sint (sequence g) + int (length cs) \<le> 2 ^ 31 - 0x3FDFE0"
  shows "snd (run g cs) = g\<lparr>sequence := sequence g + of_nat (length cs)\<rparr>"
  using assms
proof (induction cs arbitrary: g)
  case Nil
  then show ?case by simp
next
  case (Cons c cs)
  obtain now r1 r2 where c: "c = (now, r1, r2)"
    by (cases c)
  let ?g = "g\<lparr>sequence := sequence g + 1\<rparr>"
  from Cons.prems have s: "sint (sequence g) < 2 ^ 31 - 0x3FDFE0" by simp
  from Cons.prems(1) have i: "currentInterval g = interval_of now (epochStart g)"
    by (simp add: c)
  have st: "snd (flaker_Next g now r1 r2) = ?g"
    using same_interval_stays [OF i Cons.prems(2) s]
    by (simp add: flaker_Next_state next_same_interval_state)
  have s1: "sint (sequence g + 1) = sint (sequence g) + 1"
    using Cons.prems(2) s by (intro sint_succ) simp_all
  have "snd (run ?g cs) = ?g\<lparr>sequence := sequence ?g + of_nat (length cs)\<rparr>"
    using Cons.prems s1 by (intro Cons.IH) simp_all
  then show ?case
    by (simp add: c split_beta Let_def st add.assoc)
qed

lemma length_burst: "length (burst t n) = n"
  by (simp add: burst_def)

lemma burst_Suc: "burst t (Suc n) = burst t n @ [(t + 200 * of_nat n, 1, 2)]"
  by (simp add: burst_def)

lemma interval_of_sint_diff:
  "uint (interval_of now e) = (sint (now - e) div 2 ^ 30) mod 2 ^ 32"
  using interval_of_uint [of now e] by (simp only: sint_diff_shifted)

lemma interval_of_offset:
  fixes d :: int
  assumes "- (2 ^ 62) \<le> d" "d < 2 ^ 62"
  shows "interval_of (e + of_int d) e = of_int ((d div 2 ^ 30) mod 2 ^ 32)"
proof -
  have "sint (e + of_int d - e) = sint (of_int d :: int64)"
    by simp
  also have "\<dots> = signed_take_bit 63 d"
    by (simp add: signed_of_int)
  also have "\<dots> = d"
    using assms by (intro signed_take_bit_int_eq_self) simp_all
  finally have "uint (interval_of (e + of_int d) e) = (d div 2 ^ 30) mod 2 ^ 32"
    by (simp only: interval_of_sint_diff)
  then have "word_of_int (uint (interval_of (e + of_int d) e)) = (word_of_int ((d div 2 ^ 30) mod 2 ^ 32) :: int64)"
    by simp
  then show ?thesis by simp
qed

lemma burst_interval:
  fixes d :: int
  assumes "- (2 ^ 62) \<le> d" "d + 200 * int n < 2 ^ 62" "d div 2 ^ 30 = (d + 200 * int n) div 2 ^ 30"
  shows "\<forall>c \<in> set (burst (e + of_int d) n). interval_of (fst c) e = of_int ((d div 2 ^ 30) mod 2 ^ 32)"
proof
  fix c assume "c \<in> set (burst (e + of_int d) n)"
  then obtain k where k: "k < n" and c: "fst c = e + of_int d + 200 * of_nat k"
    by (auto simp: burst_def)
  have eq: "e + of_int d + 200 * of_nat k = e + of_int (d + 200 * int k)"
    by simp
  have 1: "d \<le> d + 200 * int k" and 2: "d + 200 * int k \<le> d + 200 * int n"
    using k by simp_all
  from 1 2 assms(3) have "(d + 200 * int k) div 2 ^ 30 = d div 2 ^ 30"
    using zdiv_mono1 [OF 1, of "2 ^ 30"] zdiv_mono1 [OF 2, of "2 ^ 30"] by simp
  moreover have "interval_of (e + of_int (d + 200 * int k)) e
      = of_int (((d + 200 * int k) div 2 ^ 30) mod 2 ^ 32)"
    using assms 1 2 by (intro interval_of_offset) linarith+
  ultimately show "interval_of (fst c) e = of_int ((d div 2 ^ 30) mod 2 ^ 32)"
    by (simp only: c eq)
qed


lemma flaker_Next_shuffled:
  "\<not> raw g \<Longrightarrow> fst (flaker_Next g now r1 r2) = shuffle (fst (flaker_next g now r1 r2))"
  by (simp add: flaker_Next_def split_beta)

lemma last_run_snoc:
  "last (fst (run g (cs @ [(now, r1, r2)]))) = fst (flaker_Next (snd (run g cs)) now r1 r2)"
  by (simp add: run_append split_beta Let_def)

lemma snd_run_Cons:
  "snd (run g ((now, r1, r2) # cs)) = snd (run (snd (flaker_Next g now r1 r2)) cs)"
  by (simp add: split_beta Let_def)

lemma burst_first_interval:
  "\<forall>c \<in> set (burst 1577833201073742024 4202528). interval_of (fst c) 1577833200000000000 = 1"
  using burst_interval [of 1073742024 4202528 1577833200000000000] by simp

lemma burst_last_interval:
  "\<forall>c \<in> set (burst 1577833198926258376 4202527). interval_of (fst c) 1577833200000000000 = 0xFFFFFFFF"
  using burst_interval [of "- 1073741624" 4202527 1577833200000000000] by simp

text \<open>
  C3. Raw identifiers of sequential calls under a clock that never goes back are not
  always non-decreasing. The raw singleton, with machine id 7, is called once at the start
  of the first interval after the epoch origin, then 4202528 times, 200 nanoseconds
  apart, within that interval, then once at the start of the second and once at the start
  of the third interval. The counter has then outgrown the 23 bits of the field and the
  call in the second interval carries into the interval bits, giving \<open>0x180000107\<close>; the
  call in the third interval resets the counter and gives the smaller \<open>0x180000007\<close>.
\<close>

theorem raw_ids_decrease_after_burst:
  "drop 4202529 (fst (run (Raw 7) ((1577833201073741824, 1, 2) # burst 1577833201073742024 4202528
       @ [(1577833202147483648, 1, 2), (1577833203221225472, 1, 2)])))
     = [Some 0x180000107, Some 0x180000007]
   \<and> sint (0x180000007 :: int64) < sint (0x180000107 :: int64)"
proof -
  let ?c = "(1577833201073741824 :: int64, 1 :: byte, 2 :: byte)"
  let ?b = "burst 1577833201073742024 4202528"
  let ?g1 = "\<lparr>mutex = 1, raw = True, machineId = 7, epochStart = 1577833200000000000,
     sequence = 0, currentInterval = 1\<rparr>"
  let ?g2 = "\<lparr>mutex = 1, raw = True, machineId = 7, epochStart = 1577833200000000000,
     sequence = 0x402020, currentInterval = 1\<rparr>"
  have first: "snd (flaker_Next (Raw 7) 1577833201073741824 1 2) = ?g1"
    by code_simp
  have "snd (run ?g1 ?b) = ?g1\<lparr>sequence := sequence ?g1 + of_nat (length ?b)\<rparr>"
    using burst_first_interval by (intro run_same_interval) (simp_all add: length_burst)
  then have mid: "snd (run ?g1 ?b) = ?g2"
    by (simp add: length_burst)
  have tail: "fst (run ?g2 [(1577833202147483648, 1, 2), (1577833203221225472, 1, 2)])
      = [Some 0x180000107, Some 0x180000007]"
    by code_simp
  have "drop (length (?c # ?b)) (fst (run (Raw 7) ((?c # ?b)
       @ [(1577833202147483648, 1, 2), (1577833203221225472, 1, 2)])))
     = [Some 0x180000107, Some 0x180000007]"
    by (simp only: drop_run_append snd_run_Cons first mid tail)
  then show ?thesis by (simp add: length_burst)
qed

text \<open>
  C8. An identifier can have its sign bit set. The generator is called once at the start
  of the last interval before the epoch origin, which is interval \<open>2^32 - 1\<close>, and then
  4202528 times, 200 nanoseconds apart, within that interval. In the last call the field
  reaches \<open>2^23\<close>, the sum with the shifted interval is \<open>2^55\<close>, and the shift by 8 sets
  bit 63: the raw singleton returns \<open>0x8000000000000007\<close> and the default singleton its
  shuffle \<open>0x8000000000010101\<close>, both negative.
\<close>

theorem negative_id_at_epoch_end:
  "last (fst (run (Raw 7) ((1577833198926258176, 1, 2) # burst 1577833198926258376 4202528)))
     = Some 0x8000000000000007
   \<and> sint (0x8000000000000007 :: int64) < 0
   \<and> last (fst (run (Default 7) ((1577833198926258176, 1, 2) # burst 1577833198926258376 4202528)))
     = Some 0x8000000000010101
   \<and> sint (0x8000000000010101 :: int64) < 0"
proof -
  let ?c = "(1577833198926258176 :: int64, 1 :: byte, 2 :: byte)"
  let ?b = "burst 1577833198926258376 4202527"
  let ?t = "1577833199766763776 :: int64"
  let ?r1 = "\<lparr>mutex = 1, raw = True, machineId = 7, epochStart = 1577833200000000000,
     sequence = 0, currentInterval = 0xFFFFFFFF\<rparr>"
  let ?r2 = "\<lparr>mutex = 1, raw = True, machineId = 7, epochStart = 1577833200000000000,
     sequence = 0x40201F, currentInterval = 0xFFFFFFFF\<rparr>"
  let ?d1 = "\<lparr>mutex = 0, raw = False, machineId = 7, epochStart = 1577833200000000000,
     sequence = 0, currentInterval = 0xFFFFFFFF\<rparr>"
  let ?d2 = "\<lparr>mutex = 0, raw = False, machineId = 7, epochStart = 1577833200000000000,
     sequence = 0x40201F, currentInterval = 0xFFFFFFFF\<rparr>"
  have split: "burst 1577833198926258376 4202528 = ?b @ [(?t, 1, 2)]"
    using burst_Suc [of 1577833198926258376 4202527] by simp
  have r_first: "snd (flaker_next (Raw 7) 1577833198926258176 1 2) = ?r1"
    by code_simp
  have d_first: "snd (flaker_next (Default 7) 1577833198926258176 1 2) = ?d1"
    by code_simp
  have "snd (run ?r1 ?b) = ?r1\<lparr>sequence := sequence ?r1 + of_nat (length ?b)\<rparr>"
    using burst_last_interval by (intro run_same_interval) (simp_all add: length_burst)
  then have r_burst: "snd (run ?r1 ?b) = ?r2"
    by (simp add: length_burst)
  have "snd (run ?d1 ?b) = ?d1\<lparr>sequence := sequence ?d1 + of_nat (length ?b)\<rparr>"
    using burst_last_interval by (intro run_same_interval) (simp_all add: length_burst)
  then have d_burst: "snd (run ?d1 ?b) = ?d2"
    by (simp add: length_burst)
  have r_raw: "fst (flaker_next ?r2 ?t 1 2) = 0x8000000000000007"
    by code_simp
  have d_raw: "fst (flaker_next ?d2 ?t 1 2) = 0x8000000000000007"
    by code_simp
  have sh: "shuffle 0x8000000000000007 = Some 0x8000000000010101"
    by code_simp
  have r_mode: "raw ?r2" and d_mode: "\<not> raw ?d2"
    by simp_all
  have r_last: "fst (flaker_Next ?r2 ?t 1 2) = Some 0x8000000000000007"
    using flaker_Next_raw [OF r_mode, of ?t 1 2] by (simp only: r_raw)
  have d_last: "fst (flaker_Next ?d2 ?t 1 2) = Some 0x8000000000010101"
    using flaker_Next_shuffled [OF d_mode, of ?t 1 2] by (simp only: d_raw sh)
  have "run (Raw 7) (?c # burst 1577833198926258376 4202528)
      = run (Raw 7) ((?c # ?b) @ [(?t, 1, 2)])"
    by (simp only: split append_Cons)
  then have r: "last (fst (run (Raw 7) (?c # burst 1577833198926258376 4202528)))
      = Some 0x8000000000000007"
    by (simp only: last_run_snoc snd_run_Cons flaker_Next_state r_first r_burst r_last)
  have "run (Default 7) (?c # burst 1577833198926258376 4202528)
      = run (Default 7) ((?c # ?b) @ [(?t, 1, 2)])"
    by (simp only: split append_Cons)
  then have d: "last (fst (run (Default 7) (?c # burst 1577833198926258376 4202528)))
      = Some 0x8000000000010101"
    by (simp only: last_run_snoc snd_run_Cons flaker_Next_state d_first d_burst d_last)
  have n: "sint (0x8000000000000007 :: int64) < 0" "sint (0x8000000000010101 :: int64) < 0"
    by simp_all
  show ?thesis
    by (intro conjI r d n)
qed

section \<open>Tables and bytes\<close>

lemma index_of_nth:
  assumes "distinct al" "n < length al"
  shows "index_of (al ! n) al = Some n"
  using assms
proof (induction al arbitrary: n)
  case Nil
  then show ?case by simp
next
  case (Cons y ys)
  then show ?case by (cases n) auto
qed

lemma index_of_None_iff: "index_of c al = None \<longleftrightarrow> c \<notin> set al"
  by (induction al) auto

lemma decodeMap_None_iff: "decodeMap al c = None \<longleftrightarrow> c \<notin> set al"
  by (simp add: decodeMap_def index_of_None_iff)

lemma decodeMap_encode_sym:
  fixes v :: "'a::len word"
  assumes "distinct al" "unat v < length al"
  shows "decodeMap al (encode_sym al v) = Some (of_nat (unat v))"
  using assms by (simp add: decodeMap_def encode_sym_def index_of_nth)

lemma distinct_encodeURL: "distinct encodeURL"
  by (simp add: encodeURL_def)

lemma distinct_encodeHex: "distinct encodeHex"
  by (simp add: encodeHex_def)

lemma length_alphabets: "length encodeURL = 64" "length encodeHex = 32" "length hextable = 16"
  by (simp_all add: encodeURL_def encodeHex_def hextable_def)

lemma be_roundtrip: "be_Uint64 (be_PutUint64 v) = Some v"
proof -
  let ?bs = "[ucast v, ucast (drop_bit 8 v), ucast (drop_bit 16 v), ucast (drop_bit 24 v),
      ucast (drop_bit 32 v), ucast (drop_bit 40 v), ucast (drop_bit 48 v),
      ucast (drop_bit 56 v)] :: byte list"
  have e: "be_Uint64 (be_PutUint64 v) = le_Uint64 ?bs"
    by (simp add: be_PutUint64_def)
  from le_Uint64_bits [of ?bs] obtain y where y: "le_Uint64 ?bs = Some y"
    and bits: "\<And>n. n < 64 \<Longrightarrow> bit y n = bit (?bs ! (n div 8)) (n mod 8)"
    by auto
  have "y = v"
  proof (rule bit_word_eqI)
    fix n assume "n < LENGTH(64)"
    then have n: "n < 64" by simp
    define q r where "q = n div 8" and "r = n mod 8"
    have r: "r < 8" and q: "q < 8" and qr: "8 * q + r = n"
      using n by (simp_all add: q_def r_def)
    from q have "q \<in> {0, 1, 2, 3, 4, 5, 6, 7}" by auto
    then have "bit (?bs ! q) r = bit v (8 * q + r)"
      using r by (elim insertE emptyE) (simp_all add: bit_simps)
    then show "bit y n = bit v n"
      using bits [OF n] by (simp add: qr q_def [symmetric] r_def [symmetric])
  qed
  with e y show ?thesis by simp
qed

lemma FromBytes_Bytes: "FromBytes (Bytes x) = Inr x"
  using be_roundtrip [of x] by (simp add: FromBytes_def Bytes_def) (simp add: be_PutUint64_def)

section \<open>Hexadecimal\<close>

lemma byte_cases16:
  fixes n :: byte
  assumes "unat n < 16"
  shows "n \<in> {0, 1, 2, 3, 4, 5, 6, 7, 8, 9, 10, 11, 12, 13, 14, 15}"
proof -
  from assms have "unat n \<in> {0, 1, 2, 3, 4, 5, 6, 7, 8, 9, 10, 11, 12, 13, 14, 15}"
    by (simp only: insert_iff empty_iff) arith
  then have "of_nat (unat n) \<in> {0, 1, 2, 3, 4, 5, 6, 7, 8, 9, 10, 11, 12, 13, 14, 15 :: byte}"
    by (elim insertE emptyE) simp_all
  then show ?thesis by simp
qed

lemma fromHexChar_hextable:
  fixes n :: byte
  assumes "unat n < 16"
  shows "fromHexChar (encode_sym hextable n) = Some n"
  using byte_cases16 [OF assms]
  by (elim insertE emptyE) (simp_all add: fromHexChar_def encode_sym_def hextable_def)

lemma and_mask_numerals:
  fixes v :: "'a::len word"
  shows "v AND 0x0f = take_bit 4 v" "v AND 0x1F = take_bit 5 v" "v AND 31 = take_bit 5 v"
    "v AND 0x3F = take_bit 6 v"
  by (simp_all add: take_bit_eq_mask mask_eq_exp_minus_1)

lemma nibbles_join: "push_bit 4 (drop_bit 4 v) OR (v AND 0x0f) = (v :: byte)"
  unfolding and_mask_numerals
  by (rule bit_word_eqI) (auto simp: bit_simps)

lemma unat_nibbles: "unat (drop_bit 4 (v :: byte)) < 16" "unat (v AND 0x0f :: byte) < 16"
proof -
  have "unat (drop_bit 4 v) = drop_bit 4 (unat v)"
    by (rule unat_drop_bit_eq)
  then have "unat (drop_bit 4 v) = unat v div 2 ^ 4"
    by (simp only: drop_bit_eq_div)
  moreover have "unat v < 256"
    using unsigned_less [of v, where ?'a = nat] by simp
  ultimately show "unat (drop_bit 4 v) < 16"
    by simp
  have "unat (take_bit 4 v) = take_bit 4 (unat v)"
    by (rule unsigned_take_bit_eq)
  then have "unat (take_bit 4 v) = unat v mod 2 ^ 4"
    by (simp only: take_bit_eq_mod)
  then show "unat (v AND 0x0f) < 16"
    unfolding and_mask_numerals by simp
qed

lemma hex_roundtrip: "hex_DecodeString (hex_EncodeToString bs) = Inr bs"
  by (induction bs) (simp_all add: fromHexChar_hextable unat_nibbles nibbles_join)

lemma length_hex_EncodeToString: "length (hex_EncodeToString bs) = 2 * length bs"
  by (induction bs) simp_all

lemma hex_DecodeString_valid:
  assumes "even (length s)" "\<forall>c \<in> set s. fromHexChar c \<noteq> None"
  shows "\<exists>bs. hex_DecodeString s = Inr bs \<and> 2 * length bs = length s"
  using assms
proof (induction s rule: induct_list012)
  case 1
  then show ?case by simp
next
  case (2 p)
  then show ?case by simp
next
  case (3 p q src)
  from 3 obtain bs where "hex_DecodeString src = Inr bs" "2 * length bs = length src"
    by auto
  moreover from 3(4) obtain a b where "fromHexChar p = Some a" "fromHexChar q = Some b"
    by auto
  ultimately show ?case by simp
qed

lemma hex_DecodeString_invalid:
  assumes "\<exists>c \<in> set s. fromHexChar c = None"
  shows "isl (hex_DecodeString s)"
  using assms
proof (induction s rule: induct_list012)
  case 1
  then show ?case by simp
next
  case (2 p)
  then show ?case by simp
next
  case (3 p q src)
  show ?case
  proof (cases "\<exists>c \<in> set src. fromHexChar c = None")
    case True
    with 3 have "isl (hex_DecodeString src)" by simp
    then show ?thesis by (auto split: option.splits sum.splits)
  next
    case False
    with 3(3) have "fromHexChar p = None \<or> fromHexChar q = None" by auto
    then show ?thesis by (auto split: option.splits sum.splits)
  qed
qed

lemma fromHexChar_ranges:
  "fromHexChar c \<noteq> None \<longleftrightarrow>
     (48 \<le> (of_char c :: nat) \<and> (of_char c :: nat) \<le> 57)
   \<or> (97 \<le> (of_char c :: nat) \<and> (of_char c :: nat) \<le> 102)
   \<or> (65 \<le> (of_char c :: nat) \<and> (of_char c :: nat) \<le> 70)"
proof -
  define n where "n = (of_char c :: nat)"
  have n: "n < 256" by (simp add: n_def)
  have b: "(of_char c :: byte) = of_nat n"
    by (simp add: n_def of_nat_of_char)
  have u: "unat (of_nat n :: byte) = n"
    using n by (simp add: unat_of_nat)
  have le: "\<And>k. k < 256 \<Longrightarrow> (of_nat k :: byte) \<le> of_nat n \<longleftrightarrow> k \<le> n"
    "\<And>k. k < 256 \<Longrightarrow> (of_nat n :: byte) \<le> of_nat k \<longleftrightarrow> n \<le> k"
    using n by (simp_all add: word_le_nat_alt unat_of_nat)
  have "fromHexChar c \<noteq> None \<longleftrightarrow>
     ((of_nat 48 :: byte) \<le> of_nat n \<and> (of_nat n :: byte) \<le> of_nat 57)
   \<or> ((of_nat 97 :: byte) \<le> of_nat n \<and> (of_nat n :: byte) \<le> of_nat 102)
   \<or> ((of_nat 65 :: byte) \<le> of_nat n \<and> (of_nat n :: byte) \<le> of_nat 70)"
    by (simp add: fromHexChar_def b Let_def)
  then show ?thesis
    by (simp only: le n_def [symmetric])
qed

lemma fromHexChar_None_iff:
  "fromHexChar c = None \<longleftrightarrow> c \<notin> set ''0123456789abcdefABCDEF''"
proof -
  define n where "n = (of_char c :: nat)"
  have "fromHexChar c \<noteq> None \<longleftrightarrow>
     n \<in> {48, 49, 50, 51, 52, 53, 54, 55, 56, 57, 97, 98, 99, 100, 101, 102, 65, 66, 67, 68, 69, 70}"
    unfolding fromHexChar_ranges n_def [symmetric]
    by (simp only: insert_iff empty_iff) arith
  also have "\<dots> \<longleftrightarrow> (of_char c :: nat) \<in> of_char ` set ''0123456789abcdefABCDEF''"
    by (simp add: n_def)
  also have "\<dots> \<longleftrightarrow> c \<in> set ''0123456789abcdefABCDEF''"
    by (rule inj_image_mem_iff) (rule inj_of_char)
  finally show ?thesis by blast
qed

section \<open>Base 64\<close>

lemma list_induct4 [case_names Nil One Two Three Four]:
  assumes "P []" "\<And>a. P [a]" "\<And>a b. P [a, b]" "\<And>a b c. P [a, b, c]"
    and "\<And>a b c d xs. P xs \<Longrightarrow> P (a # b # c # d # xs)"
  shows "P xs"
proof (induction xs rule: length_induct)
  case (1 xs)
  show ?case
  proof (cases xs)
    case Nil
    then show ?thesis using assms(1) by simp
  next
    case a: (Cons a as)
    show ?thesis
    proof (cases as)
      case Nil
      then show ?thesis using a assms(2) by simp
    next
      case b: (Cons b bs)
      show ?thesis
      proof (cases bs)
        case Nil
        then show ?thesis using a b assms(3) by simp
      next
        case c: (Cons c cs)
        show ?thesis
        proof (cases cs)
          case Nil
          then show ?thesis using a b c assms(4) by simp
        next
          case d: (Cons d ds)
          have "P ds" using 1 a b c d by simp
          then show ?thesis using a b c d assms(5) by simp
        qed
      qed
    qed
  qed
qed

lemma unat_sextet: "unat (w AND 0x3F :: uint64) < 64"
proof -
  have "unat (take_bit 6 w) = take_bit 6 (unat w)"
    by (rule unsigned_take_bit_eq)
  then have "unat (take_bit 6 w) = unat w mod 2 ^ 6"
    by (simp only: take_bit_eq_mod)
  then show ?thesis
    unfolding and_mask_numerals by simp
qed

lemma decodeMap_URL_sextet:
  "decodeMap encodeURL (encode_sym encodeURL (w AND 0x3F :: uint64)) = Some (ucast (w AND 0x3F))"
  using decodeMap_encode_sym [OF distinct_encodeURL, of "w AND 0x3F"] unat_sextet [of w]
  by (simp add: length_alphabets)

lemma encode_sym_URL_mem: "encode_sym encodeURL (w AND 0x3F :: uint64) \<in> set encodeURL"
  using unat_sextet [of w] by (simp add: encode_sym_def length_alphabets)

lemma b64_val_sextets:
  assumes "take_bit 24 v = v"
  shows "b64_val (ucast (drop_bit 18 v AND 0x3F)) (ucast (drop_bit 12 v AND 0x3F))
           (ucast (drop_bit 6 v AND 0x3F)) (ucast (v AND 0x3F)) = v"
proof (rule bit_word_eqI)
  fix n assume "n < LENGTH(64)"
  have hi: "\<not> bit v n" if "24 \<le> n"
    using assms that by (metis bit_take_bit_iff not_le)
  consider "n < 6" | "6 \<le> n" "n < 12" | "12 \<le> n" "n < 18" | "18 \<le> n" "n < 24" | "24 \<le> n"
    by linarith
  then show "bit (b64_val (ucast (drop_bit 18 v AND 0x3F)) (ucast (drop_bit 12 v AND 0x3F))
           (ucast (drop_bit 6 v AND 0x3F)) (ucast (v AND 0x3F))) n = bit v n"
  proof cases
    case 1
    then show ?thesis
      unfolding b64_val_def and_mask_numerals by (simp add: bit_simps)
  next
    case 2
    then show ?thesis
      unfolding b64_val_def and_mask_numerals by (auto simp: bit_simps)
  next
    case 3
    then show ?thesis
      unfolding b64_val_def and_mask_numerals by (auto simp: bit_simps)
  next
    case 4
    then show ?thesis
      unfolding b64_val_def and_mask_numerals by (auto simp: bit_simps)
  next
    case 5
    then show ?thesis
      unfolding b64_val_def and_mask_numerals using hi by (auto simp: bit_simps)
  qed
qed

lemma bit_b64_group:
  "bit (b64_group a b c) n \<longleftrightarrow>
     (n < 8 \<and> bit c n) \<or> (8 \<le> n \<and> n < 16 \<and> bit b (n - 8)) \<or> (16 \<le> n \<and> n < 24 \<and> bit a (n - 16))"
  unfolding b64_group_def by (auto simp: bit_simps dest: bit_imp_le_length)

lemma b64_group_bounded: "take_bit 24 (b64_group a b c) = b64_group a b c"
  by (rule bit_word_eqI) (auto simp: bit_take_bit_iff bit_b64_group)

lemma b64_group_bytes:
  "ucast (drop_bit 16 (b64_group a b c)) = a"
  "ucast (drop_bit 8 (b64_group a b c)) = b"
  "ucast (b64_group a b c) = c"
  by (rule bit_word_eqI; auto simp: bit_simps bit_b64_group dest: bit_imp_le_length)+

lemma b64_group_low:
  "b64_group a b 0 AND 0x3F = 0"
  "b64_group a 0 0 AND 0x3F = 0"
  "drop_bit 6 (b64_group a 0 0) AND 0x3F = 0"
  unfolding and_mask_numerals
  by (rule bit_word_eqI; auto simp: bit_simps bit_b64_group)+

lemma b64_EncodeToString_group:
  "b64_EncodeToString [a] =
     [encode_sym encodeURL (drop_bit 18 (b64_group a 0 0) AND 0x3F),
      encode_sym encodeURL (drop_bit 12 (b64_group a 0 0) AND 0x3F)]"
  "b64_EncodeToString [a, b] =
     [encode_sym encodeURL (drop_bit 18 (b64_group a b 0) AND 0x3F),
      encode_sym encodeURL (drop_bit 12 (b64_group a b 0) AND 0x3F),
      encode_sym encodeURL (drop_bit 6 (b64_group a b 0) AND 0x3F)]"
  "b64_EncodeToString (a # b # c # src) =
     encode_sym encodeURL (drop_bit 18 (b64_group a b c) AND 0x3F)
     # encode_sym encodeURL (drop_bit 12 (b64_group a b c) AND 0x3F)
     # encode_sym encodeURL (drop_bit 6 (b64_group a b c) AND 0x3F)
     # encode_sym encodeURL (b64_group a b c AND 0x3F)
     # b64_EncodeToString src"
  by (simp_all add: b64_group_def Let_def)

lemma b64_val_group:
  "b64_val (ucast (drop_bit 18 (b64_group a b c) AND 0x3F)) (ucast (drop_bit 12 (b64_group a b c) AND 0x3F))
           (ucast (drop_bit 6 (b64_group a b c) AND 0x3F)) (ucast (b64_group a b c AND 0x3F))
     = b64_group a b c"
  by (rule b64_val_sextets) (rule b64_group_bounded)

lemma b64_val_group2:
  "b64_val (ucast (drop_bit 18 (b64_group a b 0) AND 0x3F)) (ucast (drop_bit 12 (b64_group a b 0) AND 0x3F))
           (ucast (drop_bit 6 (b64_group a b 0) AND 0x3F)) 0
     = b64_group a b 0"
  using b64_val_group [of a b 0] by (simp add: b64_group_low)

lemma b64_val_group1:
  "b64_val (ucast (drop_bit 18 (b64_group a 0 0) AND 0x3F)) (ucast (drop_bit 12 (b64_group a 0 0) AND 0x3F))
           0 0
     = b64_group a 0 0"
  using b64_val_group [of a 0 0] by (simp add: b64_group_low)

lemma b64_roundtrip: "b64_decode (b64_EncodeToString bs) = Inr bs"
proof (induction bs rule: b64_EncodeToString.induct)
  case 1
  then show ?case by simp
next
  case (2 a)
  show ?case
    unfolding b64_EncodeToString_group
    by (simp add: decodeMap_URL_sextet b64_val_group1 b64_group_bytes)
next
  case (3 a b)
  show ?case
    unfolding b64_EncodeToString_group
    by (simp add: decodeMap_URL_sextet b64_val_group2 b64_group_bytes)
next
  case (4 a b c src)
  then show ?case
    unfolding b64_EncodeToString_group
    by (simp add: decodeMap_URL_sextet b64_val_group b64_group_bytes)
qed

lemma set_b64_EncodeToString: "set (b64_EncodeToString bs) \<subseteq> set encodeURL"
  by (induction bs rule: b64_EncodeToString.induct)
    (simp_all add: b64_EncodeToString_group encode_sym_URL_mem
      del: b64_EncodeToString.simps(2-))

lemma stripNewlines_id:
  assumes "CHR 0x0D \<notin> set s" "CHR 0x0A \<notin> set s"
  shows "stripNewlines s = s"
  unfolding stripNewlines_def using assms by (induction s) auto

lemma newlines_not_URL: "CHR 0x0D \<notin> set encodeURL" "CHR 0x0A \<notin> set encodeURL"
  by (simp_all add: encodeURL_def)

lemma b64_DecodeString_roundtrip: "b64_DecodeString (b64_EncodeToString bs) = Inr bs"
proof -
  have "stripNewlines (b64_EncodeToString bs) = b64_EncodeToString bs"
    using set_b64_EncodeToString [of bs] newlines_not_URL by (intro stripNewlines_id) auto
  then show ?thesis by (simp add: b64_DecodeString_def b64_roundtrip)
qed

lemma FromBytes_length:
  "length b \<noteq> 8 \<Longrightarrow> FromBytes b = Inl UnknownFormat"
  "length b = 8 \<Longrightarrow> \<exists>v. FromBytes b = Inr v"
proof -
  show "length b \<noteq> 8 \<Longrightarrow> FromBytes b = Inl UnknownFormat"
    by (simp add: FromBytes_def)
  assume "length b = 8"
  then obtain b0 b1 b2 b3 b4 b5 b6 b7 where "b = [b0, b1, b2, b3, b4, b5, b6, b7]"
    by (auto simp: length_Suc_conv eval_nat_numeral)
  then show "\<exists>v. FromBytes b = Inr v"
    by (simp add: FromBytes_def)
qed

lemma FromBytes_isl: "isl (FromBytes b) \<longleftrightarrow> length b \<noteq> 8"
  using FromBytes_length [of b] by auto

lemma b64_decode_Inr:
  assumes "b64_decode cs = Inr bs"
  shows "(\<forall>c \<in> set cs. decodeMap encodeURL c \<noteq> None) \<and> 4 * length bs \<le> 3 * length cs"
  using assms
proof (induction cs arbitrary: bs rule: list_induct4)
  case Nil
  then show ?case by simp
next
  case (One a)
  then show ?case by simp
next
  case (Two a b)
  then show ?case by (auto split: option.splits)
next
  case (Three a b c)
  then show ?case by (auto split: option.splits)
next
  case (Four a b c d xs)
  from Four.prems obtain bs' where "b64_decode xs = Inr bs'" and "length bs = 3 + length bs'"
    and "decodeMap encodeURL a \<noteq> None" "decodeMap encodeURL b \<noteq> None"
      "decodeMap encodeURL c \<noteq> None" "decodeMap encodeURL d \<noteq> None"
    by (auto split: option.splits sum.splits)
  with Four.IH [of bs'] show ?case by simp
qed

lemma b64_decode_valid:
  assumes "\<forall>c \<in> set cs. decodeMap encodeURL c \<noteq> None" "length cs mod 4 \<noteq> 1"
  shows "\<exists>bs. b64_decode cs = Inr bs \<and> length bs = 3 * length cs div 4"
  using assms
proof (induction cs rule: list_induct4)
  case Nil
  then show ?case by simp
next
  case (One a)
  then show ?case by simp
next
  case (Two a b)
  then show ?case by auto
next
  case (Three a b c)
  then show ?case by auto
next
  case (Four a b c d xs)
  then obtain bs where "b64_decode xs = Inr bs" "length bs = 3 * length xs div 4"
    by auto
  moreover from Four.prems(1) obtain d0 d1 d2 d3 where
    "decodeMap encodeURL a = Some d0" "decodeMap encodeURL b = Some d1"
    "decodeMap encodeURL c = Some d2" "decodeMap encodeURL d = Some d3"
    by auto
  ultimately show ?case by simp
qed

lemma stripNewlines_length: "length (stripNewlines s) \<le> length s"
  by (simp add: stripNewlines_def)

lemma stripNewlines_changed:
  assumes "stripNewlines s \<noteq> s"
  shows "length (stripNewlines s) < length s"
proof -
  from assms obtain c where "c \<in> set s" "\<not> (c \<noteq> CHR 0x0D \<and> c \<noteq> CHR 0x0A)"
    unfolding stripNewlines_def filter_id_conv by blast
  then show ?thesis
    unfolding stripNewlines_def by (rule length_filter_less)
qed

lemma Decode_base64:
  assumes "length s = 11"
  shows "Decode s = (case b64_DecodeString s of Inl e \<Rightarrow> Inl e | Inr b \<Rightarrow> FromBytes b)"
    and "isl (Decode s) \<longleftrightarrow> \<not> set s \<subseteq> set encodeURL"
proof -
  show d: "Decode s = (case b64_DecodeString s of Inl e \<Rightarrow> Inl e | Inr b \<Rightarrow> FromBytes b)"
    using assms by (simp add: Decode_def)
  show "isl (Decode s) \<longleftrightarrow> \<not> set s \<subseteq> set encodeURL"
  proof (cases "set s \<subseteq> set encodeURL")
    case True
    then have v: "\<forall>c \<in> set s. decodeMap encodeURL c \<noteq> None"
      by (auto simp: decodeMap_None_iff)
    from True newlines_not_URL have "stripNewlines s = s"
      by (intro stripNewlines_id) auto
    moreover from b64_decode_valid [OF v] assms obtain bs
      where "b64_decode s = Inr bs" "length bs = 8"
      by auto
    ultimately show ?thesis
      using True FromBytes_isl [of bs] by (simp add: d b64_DecodeString_def)
  next
    case False
    have "isl (Decode s)"
    proof (cases "b64_decode (stripNewlines s)")
      case (Inl e)
      then show ?thesis by (simp add: d b64_DecodeString_def)
    next
      case (Inr bs)
      note r = b64_decode_Inr [OF Inr]
      have "stripNewlines s \<noteq> s"
      proof
        assume "stripNewlines s = s"
        with r have "\<forall>c \<in> set s. decodeMap encodeURL c \<noteq> None" by simp
        with False show False by (auto simp: decodeMap_None_iff)
      qed
      from stripNewlines_changed [OF this] assms r have "length bs \<noteq> 8"
        by auto
      then show ?thesis
        using Inr FromBytes_isl [of bs] by (simp add: d b64_DecodeString_def)
    qed
    with False show ?thesis by simp
  qed
qed

section \<open>Base 32\<close>

lemma unat_quintet: "unat (b AND 31 :: byte) < 32"
proof -
  have "unat (take_bit 5 b) = take_bit 5 (unat b)"
    by (rule unsigned_take_bit_eq)
  then have "unat (take_bit 5 b) = unat b mod 2 ^ 5"
    by (simp only: take_bit_eq_mod)
  then show ?thesis
    unfolding and_mask_numerals by simp
qed

lemma decodeMap_Hex_quintet:
  "decodeMap encodeHex (encode_sym encodeHex (b AND 31 :: byte)) = Some (b AND 31)"
  using decodeMap_encode_sym [OF distinct_encodeHex, of "b AND 31"] unat_quintet [of b]
  by (simp add: length_alphabets)

lemma encode_sym_Hex_mem: "encode_sym encodeHex (b AND 31 :: byte) \<in> set encodeHex"
  using unat_quintet [of b] by (simp add: encode_sym_def length_alphabets)

lemma not_in_encodeHex:
  "CHR 0x0D \<notin> set encodeHex" "CHR 0x0A \<notin> set encodeHex" "CHR 0xFF \<notin> set encodeHex"
  by (simp_all add: encodeHex_def)

lemma encode_sym_Hex_not_pad: "encode_sym encodeHex (b AND 31 :: byte) \<noteq> CHR 0xFF"
  using encode_sym_Hex_mem [of b] not_in_encodeHex(3) by metis

lemma byte_eqI:
  fixes a b :: byte
  assumes "bit a 0 = bit b 0" "bit a 1 = bit b 1" "bit a 2 = bit b 2" "bit a 3 = bit b 3"
    "bit a 4 = bit b 4" "bit a 5 = bit b 5" "bit a 6 = bit b 6" "bit a 7 = bit b 7"
  shows "a = b"
proof (rule bit_word_eqI)
  fix n assume "n < LENGTH(8)"
  then have "n \<in> {0, 1, 2, 3, 4, 5, 6, 7}" by auto
  then show "bit a n = bit b n"
    using assms by (elim insertE emptyE) simp_all
qed

lemma bit_byte_high: "8 \<le> n \<Longrightarrow> \<not> bit (b :: byte) n"
  by (auto dest: bit_imp_le_length)

lemma bit_times2: "bit (a * 2 :: byte) n \<longleftrightarrow> 0 < n \<and> n < 8 \<and> bit a (n - 1)"
proof -
  have "a * 2 = push_bit 1 a"
    by (simp add: push_bit_eq_mult)
  then show ?thesis
    by (simp only: bit_push_bit_iff) (auto simp: bit_simps dest: bit_imp_le_length)
qed

lemma b32_join0:
  fixes s0 s1 :: byte
  shows "push_bit 3 (drop_bit 3 s0 AND 31)
     OR drop_bit 2 (((push_bit 2 s0 AND 0x1F) OR (drop_bit 6 s1 AND 0x1F)) AND 31) = s0"
  unfolding and_mask_numerals
  by (rule byte_eqI)
    (simp_all add: bit_simps bit_times2 bit_byte_high numeral_2_eq_2 [symmetric]
      numeral_3_eq_3 [symmetric])

lemma b32_join1:
  fixes s0 s1 s2 :: byte
  shows "push_bit 6 (((push_bit 2 s0 AND 0x1F) OR (drop_bit 6 s1 AND 0x1F)) AND 31)
     OR push_bit 1 ((drop_bit 1 s1 AND 0x1F) AND 31)
     OR drop_bit 4 (((push_bit 4 s1 AND 0x1F) OR (drop_bit 4 s2 AND 0x1F)) AND 31) = s1"
  unfolding and_mask_numerals
  by (rule byte_eqI)
    (simp_all add: bit_simps bit_times2 bit_byte_high numeral_2_eq_2 [symmetric]
      numeral_3_eq_3 [symmetric])

lemma b32_join2:
  fixes s1 s2 s3 :: byte
  shows "push_bit 4 (((push_bit 4 s1 AND 0x1F) OR (drop_bit 4 s2 AND 0x1F)) AND 31)
     OR drop_bit 1 (((push_bit 1 s2 AND 0x1F) OR drop_bit 7 s3) AND 31) = s2"
  unfolding and_mask_numerals
  by (rule byte_eqI)
    (simp_all add: bit_simps bit_times2 bit_byte_high numeral_2_eq_2 [symmetric]
      numeral_3_eq_3 [symmetric])

lemma b32_join3:
  fixes s2 s3 s4 :: byte
  shows "push_bit 7 (((push_bit 1 s2 AND 0x1F) OR drop_bit 7 s3) AND 31)
     OR push_bit 2 ((drop_bit 2 s3 AND 0x1F) AND 31)
     OR drop_bit 3 (((push_bit 3 s3 AND 0x1F) OR drop_bit 5 s4) AND 31) = s3"
  unfolding and_mask_numerals
  by (rule byte_eqI)
    (simp_all add: bit_simps bit_times2 bit_byte_high numeral_2_eq_2 [symmetric]
      numeral_3_eq_3 [symmetric])

lemma b32_join4:
  fixes s3 s4 :: byte
  shows "push_bit 5 (((push_bit 3 s3 AND 0x1F) OR drop_bit 5 s4) AND 31)
     OR ((s4 AND 0x1F) AND 31) = s4"
  unfolding and_mask_numerals
  by (rule byte_eqI)
    (simp_all add: bit_simps bit_times2 bit_byte_high numeral_2_eq_2 [symmetric]
      numeral_3_eq_3 [symmetric])

lemma decodeMap_Hex_not_pad:
  assumes "decodeMap encodeHex c = Some d"
  shows "c \<noteq> CHR 0xFF"
proof
  assume "c = CHR 0xFF"
  with not_in_encodeHex(3) have "decodeMap encodeHex c = None"
    by (simp only: decodeMap_None_iff) simp
  with assms show False by simp
qed

lemma b32_decode_quantum:
  assumes "decodeMap encodeHex c0 = Some d0" "decodeMap encodeHex c1 = Some d1"
    "decodeMap encodeHex c2 = Some d2" "decodeMap encodeHex c3 = Some d3"
    "decodeMap encodeHex c4 = Some d4" "decodeMap encodeHex c5 = Some d5"
    "decodeMap encodeHex c6 = Some d6" "decodeMap encodeHex c7 = Some d7"
  shows "b32_decode [] (c0 # c1 # c2 # c3 # c4 # c5 # c6 # c7 # src) =
     (case b32_decode [] src of
        Inl e \<Rightarrow> Inl e
      | Inr bs \<Rightarrow> Inr (b32_pack [d0, d1, d2, d3, d4, d5, d6, d7] @ bs))"
  using assms assms [THEN decodeMap_Hex_not_pad]
  by (cases "b32_decode [] src") simp_all

lemma b32_decode_rest5:
  assumes "decodeMap encodeHex c0 = Some d0" "decodeMap encodeHex c1 = Some d1"
    "decodeMap encodeHex c2 = Some d2" "decodeMap encodeHex c3 = Some d3"
    "decodeMap encodeHex c4 = Some d4"
  shows "b32_decode [] [c0, c1, c2, c3, c4] = Inr (b32_pack [d0, d1, d2, d3, d4])"
  using assms assms [THEN decodeMap_Hex_not_pad] by simp

lemma b32_pack_8: "b32_pack [d0, d1, d2, d3, d4, d5, d6, d7] =
  [push_bit 3 d0 OR drop_bit 2 d1, push_bit 6 d1 OR push_bit 1 d2 OR drop_bit 4 d3,
   push_bit 4 d3 OR drop_bit 1 d4, push_bit 7 d4 OR push_bit 2 d5 OR drop_bit 3 d6,
   push_bit 5 d6 OR d7]"
  by (simp add: b32_pack_def Let_def del: push_bit_Suc push_bit_of_1)

lemma b32_pack_5: "b32_pack [d0, d1, d2, d3, d4] =
  [push_bit 3 d0 OR drop_bit 2 d1, push_bit 6 d1 OR push_bit 1 d2 OR drop_bit 4 d3,
   push_bit 4 d3 OR drop_bit 1 d4]"
  by (simp add: b32_pack_def Let_def)

lemma take5_of_8: "take 5 [a, b, c, d, e, f, g, h] = [a, b, c, d, e]"
  by simp

lemma b32_EncodeToString_8:
  "b32_EncodeToString [s0, s1, s2, s3, s4, s5, s6, s7]
     = map (\<lambda>b. encode_sym encodeHex (b AND 31)) (b32_blocks s0 s1 s2 s3 s4)
       @ map (\<lambda>b. encode_sym encodeHex (b AND 31)) (take 5 (b32_blocks s5 s6 s7 0 0))"
  by simp

lemma b32_roundtrip8:
  "b32_decode [] (b32_EncodeToString [s0, s1, s2, s3, s4, s5, s6, s7])
     = Inr [s0, s1, s2, s3, s4, s5, s6, s7]"
proof -
  have a: "b32_decode [] (map (\<lambda>b. encode_sym encodeHex (b AND 31)) (take 5 (b32_blocks s5 s6 s7 0 0)))
      = Inr [s5, s6, s7]"
    unfolding b32_blocks_def take5_of_8 list.map
    by (subst b32_decode_rest5 [OF decodeMap_Hex_quintet decodeMap_Hex_quintet
          decodeMap_Hex_quintet decodeMap_Hex_quintet decodeMap_Hex_quintet])
      (simp only: b32_pack_5 b32_join0 b32_join1 b32_join2)
  have b: "b32_decode [] (map (\<lambda>b. encode_sym encodeHex (b AND 31)) (b32_blocks s0 s1 s2 s3 s4) @ src)
      = (case b32_decode [] src of Inl e \<Rightarrow> Inl e | Inr bs \<Rightarrow> Inr ([s0, s1, s2, s3, s4] @ bs))"
    for src
    unfolding b32_blocks_def list.map append_Cons append_Nil
    by (subst b32_decode_quantum [OF decodeMap_Hex_quintet decodeMap_Hex_quintet
          decodeMap_Hex_quintet decodeMap_Hex_quintet decodeMap_Hex_quintet
          decodeMap_Hex_quintet decodeMap_Hex_quintet decodeMap_Hex_quintet])
      (simp only: b32_pack_8 b32_join0 b32_join1 b32_join2 b32_join3 b32_join4 append_Cons append_Nil)
  show ?thesis
    by (simp only: b32_EncodeToString_8 b a sum.case append_Cons append_Nil)
qed

section \<open>Decoding by length\<close>

lemma length_b32_pack: "8 * length (b32_pack dbuf) \<le> 5 * length dbuf"
  by (simp add: b32_pack_def Let_def)

lemma b32_decode_bound:
  assumes "b32_decode dbuf src = Inr bs"
  shows "8 * length bs
     \<le> 5 * (length dbuf + length (takeWhile (\<lambda>c. decodeMap encodeHex c \<noteq> None) src))"
  using assms
proof (induction src arbitrary: dbuf bs)
  case Nil
  then show ?case using length_b32_pack [of dbuf] by auto
next
  case (Cons c src)
  show ?case
  proof (cases "c = CHR 0xFF \<and> 2 \<le> length dbuf \<and> length src < 8")
    case True
    with Cons.prems have "bs = b32_pack dbuf"
      by (simp split: if_splits)
    then show ?thesis using length_b32_pack [of dbuf] by simp
  next
    case False
    with Cons.prems obtain v where v: "decodeMap encodeHex c = Some v"
      by (auto split: option.splits)
    show ?thesis
    proof (cases "length dbuf = 7")
      case True
      with Cons.prems False v obtain bs' where bs': "b32_decode [] src = Inr bs'"
        and bs: "bs = b32_pack (dbuf @ [v]) @ bs'"
        by (auto split: sum.splits)
      from Cons.IH [OF bs'] length_b32_pack [of "dbuf @ [v]"] show ?thesis
        by (simp add: bs v)
    next
      case seven: False
      with Cons.prems False v have "b32_decode (dbuf @ [v]) src = Inr bs"
        by simp
      from Cons.IH [OF this] show ?thesis
        by (simp add: v)
    qed
  qed
qed

lemma length_takeWhile_less:
  assumes "\<exists>x \<in> set xs. \<not> P x"
  shows "length (takeWhile P xs) < length xs"
  using assms by (induction xs) auto

lemma b32_decode_valid13:
  assumes "length s = 13" "set s \<subseteq> set encodeHex"
  shows "\<exists>bs. b32_decode [] s = Inr bs \<and> length bs = 8"
proof -
  from assms(1) obtain c0 c1 c2 c3 c4 c5 c6 c7 c8 c9 c10 c11 c12
    where s: "s = [c0, c1, c2, c3, c4, c5, c6, c7, c8, c9, c10, c11, c12]"
    by (auto simp: length_Suc_conv eval_nat_numeral)
  from assms(2) have "\<forall>c \<in> set s. \<exists>d. decodeMap encodeHex c = Some d"
    using decodeMap_None_iff [of encodeHex] by (metis not_None_eq subsetD)
  then obtain d0 d1 d2 d3 d4 d5 d6 d7 d8 d9 d10 d11 d12 where
    d: "decodeMap encodeHex c0 = Some d0" "decodeMap encodeHex c1 = Some d1"
      "decodeMap encodeHex c2 = Some d2" "decodeMap encodeHex c3 = Some d3"
      "decodeMap encodeHex c4 = Some d4" "decodeMap encodeHex c5 = Some d5"
      "decodeMap encodeHex c6 = Some d6" "decodeMap encodeHex c7 = Some d7"
    and e: "decodeMap encodeHex c8 = Some d8" "decodeMap encodeHex c9 = Some d9"
      "decodeMap encodeHex c10 = Some d10" "decodeMap encodeHex c11 = Some d11"
      "decodeMap encodeHex c12 = Some d12"
    unfolding s by auto
  have "b32_decode [] s = Inr (b32_pack [d0, d1, d2, d3, d4, d5, d6, d7] @ b32_pack [d8, d9, d10, d11, d12])"
    unfolding s by (simp only: b32_decode_quantum [OF d] b32_decode_rest5 [OF e] sum.case)
  then show ?thesis
    by (simp add: b32_pack_8 b32_pack_5)
qed

lemma Decode_base32:
  assumes "length s = 13"
  shows "Decode s = (case b32_DecodeString s of Inl e \<Rightarrow> Inl e | Inr b \<Rightarrow> FromBytes b)"
    and "isl (Decode s) \<longleftrightarrow> \<not> set s \<subseteq> set encodeHex"
proof -
  let ?valid = "\<lambda>c. decodeMap encodeHex c \<noteq> None"
  show d: "Decode s = (case b32_DecodeString s of Inl e \<Rightarrow> Inl e | Inr b \<Rightarrow> FromBytes b)"
    using assms by (simp add: Decode_def)
  show "isl (Decode s) \<longleftrightarrow> \<not> set s \<subseteq> set encodeHex"
  proof (cases "set s \<subseteq> set encodeHex")
    case True
    with not_in_encodeHex have "stripNewlines s = s"
      by (intro stripNewlines_id) auto
    moreover from b32_decode_valid13 [OF assms True] obtain bs
      where "b32_decode [] s = Inr bs" "length bs = 8"
      by auto
    ultimately show ?thesis
      using True FromBytes_isl [of bs] by (simp add: d b32_DecodeString_def)
  next
    case False
    have "isl (Decode s)"
    proof (cases "b32_decode [] (stripNewlines s)")
      case (Inl e)
      then show ?thesis by (simp add: d b32_DecodeString_def)
    next
      case (Inr bs)
      note r = b32_decode_bound [OF Inr]
      have "length (takeWhile ?valid (stripNewlines s)) < 13"
      proof (cases "stripNewlines s = s")
        case True
        from False have "\<exists>x \<in> set s. \<not> ?valid x"
          by (auto simp: decodeMap_None_iff)
        from length_takeWhile_less [OF this] show ?thesis
          using True assms by simp
      next
        case False
        from stripNewlines_changed [OF this] length_takeWhile_le [of ?valid "stripNewlines s"]
        show ?thesis using assms by simp
      qed
      with r have "length bs \<noteq> 8"
        by auto
      then show ?thesis
        using Inr FromBytes_isl [of bs] by (simp add: d b32_DecodeString_def)
    qed
    with False show ?thesis by simp
  qed
qed

lemma Decode_hex:
  assumes "length s = 16"
  shows "Decode s = (case hex_DecodeString s of Inl e \<Rightarrow> Inl e | Inr b \<Rightarrow> FromBytes b)"
    and "isl (Decode s) \<longleftrightarrow> \<not> set s \<subseteq> set ''0123456789abcdefABCDEF''"
proof -
  show d: "Decode s = (case hex_DecodeString s of Inl e \<Rightarrow> Inl e | Inr b \<Rightarrow> FromBytes b)"
    using assms by (simp add: Decode_def)
  show "isl (Decode s) \<longleftrightarrow> \<not> set s \<subseteq> set ''0123456789abcdefABCDEF''"
  proof (cases "set s \<subseteq> set ''0123456789abcdefABCDEF''")
    case True
    then have "\<forall>c \<in> set s. fromHexChar c \<noteq> None"
      unfolding fromHexChar_None_iff by blast
    from hex_DecodeString_valid [OF _ this] assms obtain bs
      where "hex_DecodeString s = Inr bs" "length bs = 8"
      by auto
    then show ?thesis
      using True FromBytes_isl [of bs] by (simp add: d)
  next
    case False
    then have "\<exists>c \<in> set s. fromHexChar c = None"
      unfolding fromHexChar_None_iff by blast
    from hex_DecodeString_invalid [OF this] have "isl (Decode s)"
      by (auto simp: d isl_def)
    with False show ?thesis by simp
  qed
qed

lemma Decode_other:
  assumes "length s \<noteq> 11" "length s \<noteq> 13" "length s \<noteq> 16"
  shows "Decode s = Inl UnknownFormat"
  using assms by (simp add: Decode_def)

lemma Bytes_explicit:
  "\<exists>s0 s1 s2 s3 s4 s5 s6 s7. Bytes x = [s0, s1, s2, s3, s4, s5, s6, s7]"
  by (simp add: Bytes_def be_PutUint64_def)

lemma Decode_Hex: "Decode (Hex x) = Inr x"
proof -
  have "length (Hex x) = 16"
    by (simp add: Hex_def length_hex_EncodeToString Bytes_def be_PutUint64_def)
  then show ?thesis
    by (simp add: Decode_def Hex_def hex_roundtrip FromBytes_Bytes)
qed

lemma Decode_Base64: "Decode (Base64 x) = Inr x"
proof -
  from Bytes_explicit [of x] obtain s0 s1 s2 s3 s4 s5 s6 s7
    where b: "Bytes x = [s0, s1, s2, s3, s4, s5, s6, s7]" by blast
  have "length (Base64 x) = 11"
    by (simp add: Base64_def b Let_def)
  then show ?thesis
    by (simp add: Decode_def Base64_def b64_DecodeString_roundtrip FromBytes_Bytes)
qed

lemma Decode_Base32: "Decode (Base32 x) = Inr x"
proof -
  from Bytes_explicit [of x] obtain s0 s1 s2 s3 s4 s5 s6 s7
    where b: "Bytes x = [s0, s1, s2, s3, s4, s5, s6, s7]" by blast
  have l: "length (Base32 x) = 13"
    by (simp add: Base32_def b b32_blocks_def)
  have "set (Base32 x) \<subseteq> set encodeHex"
    unfolding Base32_def b b32_EncodeToString_8 b32_blocks_def take5_of_8
    by (simp add: encode_sym_Hex_mem del: encode_sym_def)
  with not_in_encodeHex have "stripNewlines (Base32 x) = Base32 x"
    by (intro stripNewlines_id) auto
  moreover have "b32_decode [] (Base32 x) = Inr (Bytes x)"
    unfolding Base32_def b by (rule b32_roundtrip8)
  ultimately have "b32_DecodeString (Base32 x) = Inr (Bytes x)"
    by (simp only: b32_DecodeString_def)
  with l show ?thesis
    by (simp add: Decode_def FromBytes_Bytes)
qed

text \<open>
  C4. Every identifier is returned by \<^verbatim>\<open>Decode\<close> from each of its three text forms and by
  \<^verbatim>\<open>FromBytes\<close> from its eight bytes, without an error. This holds for every 64-bit value,
  so for every 63-bit identifier.
\<close>

theorem encodings_round_trip:
  "Decode (Hex x) = Inr x \<and> Decode (Base32 x) = Inr x \<and> Decode (Base64 x) = Inr x
   \<and> FromBytes (Bytes x) = Inr x"
  by (simp only: Decode_Hex Decode_Base32 Decode_Base64 FromBytes_Bytes)

text \<open>The first identifier of the table of examples in the README, in its three text forms.\<close>

theorem encodings_round_trip_witness:
  "Hex 0x4030404040700001 = ''4030404040700001''
   \<and> Base32 0x4030404040700001 = ''80O40G20E0002''
   \<and> Base64 0x4030404040700001 = ''QDBAQEBwAAE''
   \<and> Decode ''4030404040700001'' = Inr 0x4030404040700001
   \<and> Decode ''80O40G20E0002'' = Inr 0x4030404040700001
   \<and> Decode ''QDBAQEBwAAE'' = Inr 0x4030404040700001"
proof -
  have h: "Hex 0x4030404040700001 = ''4030404040700001''"
    by code_simp
  have b32: "Base32 0x4030404040700001 = ''80O40G20E0002''"
    by code_simp
  have b64: "Base64 0x4030404040700001 = ''QDBAQEBwAAE''"
    by code_simp
  from encodings_round_trip [of "0x4030404040700001"] h b32 b64 show ?thesis
    by simp
qed

text \<open>
  C5. \<^verbatim>\<open>Decode\<close> chooses by the length of the string. A length other than 11, 13 and 16
  gives the error "unknown format" and no decoder is called. A string of length 11 goes
  to the base 64 decoder, one of length 13 to the base 32 decoder and one of length 16 to
  the hexadecimal decoder, and the result is an error exactly when some character is
  outside the alphabet of that encoding. \<^verbatim>\<open>FromBytes\<close> gives the error "unknown format"
  exactly when the slice does not have eight bytes, and no other error.
\<close>

theorem Decode_by_length:
  "(length s \<noteq> 11 \<and> length s \<noteq> 13 \<and> length s \<noteq> 16 \<longrightarrow> Decode s = Inl UnknownFormat)
   \<and> (length s = 11 \<longrightarrow>
        Decode s = (case b64_DecodeString s of Inl e \<Rightarrow> Inl e | Inr b \<Rightarrow> FromBytes b)
        \<and> (isl (Decode s) \<longleftrightarrow> \<not> set s \<subseteq> set encodeURL))
   \<and> (length s = 13 \<longrightarrow>
        Decode s = (case b32_DecodeString s of Inl e \<Rightarrow> Inl e | Inr b \<Rightarrow> FromBytes b)
        \<and> (isl (Decode s) \<longleftrightarrow> \<not> set s \<subseteq> set encodeHex))
   \<and> (length s = 16 \<longrightarrow>
        Decode s = (case hex_DecodeString s of Inl e \<Rightarrow> Inl e | Inr b \<Rightarrow> FromBytes b)
        \<and> (isl (Decode s) \<longleftrightarrow> \<not> set s \<subseteq> set ''0123456789abcdefABCDEF''))
   \<and> (FromBytes b = Inl UnknownFormat \<longleftrightarrow> length b \<noteq> 8)
   \<and> (isl (FromBytes b) \<longleftrightarrow> length b \<noteq> 8)"
proof -
  have 1: "length s \<noteq> 11 \<and> length s \<noteq> 13 \<and> length s \<noteq> 16 \<longrightarrow> Decode s = Inl UnknownFormat"
    using Decode_other [of s] by blast
  have 2: "length s = 11 \<longrightarrow>
        Decode s = (case b64_DecodeString s of Inl e \<Rightarrow> Inl e | Inr b \<Rightarrow> FromBytes b)
        \<and> (isl (Decode s) \<longleftrightarrow> \<not> set s \<subseteq> set encodeURL)"
    using Decode_base64 [of s] by blast
  have 3: "length s = 13 \<longrightarrow>
        Decode s = (case b32_DecodeString s of Inl e \<Rightarrow> Inl e | Inr b \<Rightarrow> FromBytes b)
        \<and> (isl (Decode s) \<longleftrightarrow> \<not> set s \<subseteq> set encodeHex)"
    using Decode_base32 [of s] by blast
  have 4: "length s = 16 \<longrightarrow>
        Decode s = (case hex_DecodeString s of Inl e \<Rightarrow> Inl e | Inr b \<Rightarrow> FromBytes b)
        \<and> (isl (Decode s) \<longleftrightarrow> \<not> set s \<subseteq> set ''0123456789abcdefABCDEF'')"
    using Decode_hex [of s] by blast
  have 5: "FromBytes b = Inl UnknownFormat \<longleftrightarrow> length b \<noteq> 8"
    using FromBytes_length [of b] by auto
  have 6: "isl (FromBytes b) \<longleftrightarrow> length b \<noteq> 8"
    by (rule FromBytes_isl)
  from 1 2 3 4 5 6 show ?thesis by (intro conjI)
qed

text \<open>
  The empty string and \<open>1234567890\<close>; for each length a string of the alphabet and one
  with a character outside it; a slice of four bytes.
\<close>

theorem Decode_by_length_witness:
  "Decode '''' = Inl UnknownFormat
   \<and> Decode ''1234567890'' = Inl UnknownFormat
   \<and> \<not> isl (Decode ''QDBAQEBwAAE'') \<and> isl (Decode ''QDBAQEBwAA='')
   \<and> \<not> isl (Decode ''80O40G20E0002'') \<and> isl (Decode ''80o40g20e0002'')
   \<and> \<not> isl (Decode ''4030404040700001'') \<and> isl (Decode ''403040404070000g'')
   \<and> FromBytes [1, 2, 3, 4] = Inl UnknownFormat"
proof -
  note c2 = conjunct2
  have a: "Decode '''' = Inl UnknownFormat"
    using Decode_by_length [of "''''" "[]", THEN conjunct1] by simp
  have b: "Decode ''1234567890'' = Inl UnknownFormat"
    using Decode_by_length [of "''1234567890''" "[]", THEN conjunct1] by simp
  have c: "\<not> isl (Decode ''QDBAQEBwAAE'')"
    using Decode_by_length [of "''QDBAQEBwAAE''" "[]", THEN c2, THEN conjunct1, THEN mp, THEN c2]
    by (simp add: encodeURL_def)
  have d: "isl (Decode ''QDBAQEBwAA='')"
    using Decode_by_length [of "''QDBAQEBwAA=''" "[]", THEN c2, THEN conjunct1, THEN mp, THEN c2]
    by (simp add: encodeURL_def)
  have e: "\<not> isl (Decode ''80O40G20E0002'')"
    using Decode_by_length [of "''80O40G20E0002''" "[]", THEN c2, THEN c2, THEN conjunct1, THEN mp, THEN c2]
    by (simp add: encodeHex_def)
  have f: "isl (Decode ''80o40g20e0002'')"
    using Decode_by_length [of "''80o40g20e0002''" "[]", THEN c2, THEN c2, THEN conjunct1, THEN mp, THEN c2]
    by (simp add: encodeHex_def)
  have g: "\<not> isl (Decode ''4030404040700001'')"
    using Decode_by_length [of "''4030404040700001''" "[]", THEN c2, THEN c2, THEN c2, THEN conjunct1, THEN mp,
      THEN c2]
    by simp
  have h: "isl (Decode ''403040404070000g'')"
    using Decode_by_length [of "''403040404070000g''" "[]", THEN c2, THEN c2, THEN c2, THEN conjunct1, THEN mp,
      THEN c2]
    by simp
  have i: "FromBytes [1, 2, 3, 4] = Inl UnknownFormat"
    using Decode_by_length [of "[]" "[1, 2, 3, 4]", THEN c2, THEN c2, THEN c2, THEN c2, THEN conjunct1]
    by simp
  show ?thesis
    by (intro conjI a b c d e f g h i)
qed

end
